theory Spec2Isabelle
  imports Complex_Main "HOL-Library.Word"
begin

section \<open>Python values, exceptions and dictionaries\<close>

text \<open>
  The tool is written in Python on top of OpenCV and NumPy. Every function of the
  repository that can raise is modelled as a function into \<open>error + 'a\<close>, with
  \<open>Inl\<close> for the raised exception. The constructors of \<open>error\<close> are subclasses
  of Python's \<open>Exception\<close>: they are what an \<open>except Exception\<close> clause catches
  (\<open>KeyboardInterrupt\<close> and \<open>SystemExit\<close>, which it does not catch, are not
  modelled).
\<close>

datatype error =
    ValueError
  | TypeError
  | AttributeError
  | ZeroDivisionError
  | OverflowError
  | IndexError
  | UnicodeEncodeError
  | cv2_error
  | OtherException

text \<open>
  Configuration values, as the YAML loader produces them. A finite Python \<open>float\<close>
  is given by its exact value, a rational number (\<open>PFloat\<close>); \<open>PInf\<close>,
  \<open>PNegInf\<close> and \<open>PNaN\<close> are the floats \<open>.inf\<close>, \<open>-.inf\<close> and
  \<open>.nan\<close>. The sign of a zero is not kept. A dictionary is an association list with
  string keys.
\<close>

datatype pyval =
    PNone
  | PBool bool
  | PInt int
  | PFloat rat
  | PInf
  | PNegInf
  | PNaN
  | PStr string
  | PList "pyval list"
  | PTuple "pyval list"
  | PDict "(string \<times> pyval) list"

definition ebind :: "error + 'a \<Rightarrow> ('a \<Rightarrow> error + 'b) \<Rightarrow> error + 'b" where
  "ebind m f = (case m of Inl e \<Rightarrow> Inl e | Inr x \<Rightarrow> f x)"

text \<open>\<open>try: m except Exception: h\<close>\<close>

definition try_except :: "error + 'a \<Rightarrow> (error \<Rightarrow> error + 'a) \<Rightarrow> error + 'a" where
  "try_except m h = (case m of Inl e \<Rightarrow> h e | Inr x \<Rightarrow> Inr x)"

text \<open>\<open>d.get(key, default)\<close> with a literal key: only a dictionary has the method.\<close>

fun py_get :: "pyval \<Rightarrow> string \<Rightarrow> pyval \<Rightarrow> error + pyval" where
  "py_get (PDict kvs) k d = Inr (case map_of kvs k of None \<Rightarrow> d | Some v \<Rightarrow> v)"
| "py_get _ k d = Inl AttributeError"

text \<open>
  \<open>d.get(key, default)\<close> where the key is itself a configuration value: lists and
  dictionaries are unhashable (\<open>TypeError\<close>), and a key that is not a string is not
  found in a dictionary whose keys are strings. (A configuration holds no tuples.)
\<close>

fun py_get_val :: "pyval \<Rightarrow> pyval \<Rightarrow> pyval \<Rightarrow> error + pyval" where
  "py_get_val (PDict kvs) (PStr k) d = py_get (PDict kvs) k d"
| "py_get_val (PDict kvs) (PList xs) d = Inl TypeError"
| "py_get_val (PDict kvs) (PDict xs) d = Inl TypeError"
| "py_get_val (PDict kvs) (PTuple xs) d = Inr d"
| "py_get_val (PDict kvs) PNone d = Inr d"
| "py_get_val (PDict kvs) (PBool b) d = Inr d"
| "py_get_val (PDict kvs) (PInt i) d = Inr d"
| "py_get_val (PDict kvs) (PFloat r) d = Inr d"
| "py_get_val (PDict kvs) PInf d = Inr d"
| "py_get_val (PDict kvs) PNegInf d = Inr d"
| "py_get_val (PDict kvs) PNaN d = Inr d"
| "py_get_val _ k d = Inl AttributeError"

text \<open>Truth value of a configuration value, as \<open>if v:\<close> tests it.\<close>

fun py_truthy :: "pyval \<Rightarrow> bool" where
  "py_truthy PNone = False"
| "py_truthy (PBool b) = b"
| "py_truthy (PInt i) = (i \<noteq> 0)"
| "py_truthy (PFloat r) = (r \<noteq> 0)"
| "py_truthy PInf = True"
| "py_truthy PNegInf = True"
| "py_truthy PNaN = True"
| "py_truthy (PStr s) = (s \<noteq> [])"
| "py_truthy (PList xs) = (xs \<noteq> [])"
| "py_truthy (PTuple xs) = (xs \<noteq> [])"
| "py_truthy (PDict kvs) = (kvs \<noteq> [])"

text \<open>The value of a finite number (a \<open>bool\<close> is the integer 0 or 1).\<close>

fun py_num :: "pyval \<Rightarrow> rat option" where
  "py_num (PInt i) = Some (of_int i)"
| "py_num (PFloat r) = Some r"
| "py_num (PBool b) = Some (if b then 1 else 0)"
| "py_num _ = None"

text \<open>\<open>int(x)\<close> on a finite float: truncation towards zero.\<close>

definition py_int :: "rat \<Rightarrow> int" where
  "py_int x = (if 0 \<le> x then \<lfloor>x\<rfloor> else \<lceil>x\<rceil>)"

text \<open>\<open>tuple(v)\<close>\<close>

fun py_tuple :: "pyval \<Rightarrow> error + pyval" where
  "py_tuple (PList xs) = Inr (PTuple xs)"
| "py_tuple (PTuple xs) = Inr (PTuple xs)"
| "py_tuple (PStr s) = Inr (PTuple (map (\<lambda>c. PStr [c]) s))"
| "py_tuple (PDict kvs) = Inr (PTuple (map (\<lambda>kv. PStr (fst kv)) kvs))"
| "py_tuple _ = Inl TypeError"

section \<open>Python floats\<close>

text \<open>
  A Python \<open>float\<close> is an IEEE 754 double: 53 significant bits, exponents from
  \<open>-1022\<close> to \<open>1023\<close>, gradual underflow, and results rounded to the nearest
  double, ties to the even one. \<open>bits n\<close> is the number of binary digits of
  \<open>n\<close>, and \<open>ilog2 x\<close> is the integer \<open>k\<close> with
  \<open>2^k \<le> x < 2^(k+1)\<close>, for \<open>x > 0\<close>.
\<close>

fun bits :: "nat \<Rightarrow> nat" where
  "bits n = (if n = 0 then 0 else Suc (bits (n div 2)))"

declare bits.simps [simp del]

definition ilog2 :: "rat \<Rightarrow> int" where
  "ilog2 x =
     (if 1 \<le> x then int (bits (nat \<lfloor>x\<rfloor>)) - 1 else - int (bits (nat (\<lceil>1 / x\<rceil> - 1))))"

definition round_half_even :: "rat \<Rightarrow> int" where
  "round_half_even x =
     (let f = \<lfloor>x\<rfloor>; r = x - of_int f in
      if r < 1 / 2 then f else if 1 / 2 < r then f + 1 else if even f then f else f + 1)"

text \<open>
  The exponent of the last bit of the doubles around \<open>x\<close>, and the double nearest
  to \<open>x\<close>: \<open>None\<close> when the rounded value is beyond the largest double (the
  operation overflows).
\<close>

definition ulp_exp :: "rat \<Rightarrow> int" where
  "ulp_exp x = max (ilog2 \<bar>x\<bar>) (- 1022) - 52"

definition round_double :: "rat \<Rightarrow> rat option" where
  "round_double x =
     (if x = 0 then Some 0
      else let r = of_int (round_half_even (x / 2 powi ulp_exp x)) * 2 powi ulp_exp x
           in if 2 ^ 1024 \<le> \<bar>r\<bar> then None else Some r)"

text \<open>
  A floating-point value: finite, an infinity, or not a number. The result of a float
  operation whose exact value is \<open>x\<close> is the nearest double, or the infinity of the
  sign of \<open>x\<close> on overflow.
\<close>

datatype floating = Finite rat | PosInf | NegInf | NaN

definition fl :: "rat \<Rightarrow> floating" where
  "fl x = (case round_double x of Some r \<Rightarrow> Finite r | None \<Rightarrow> if 0 < x then PosInf else NegInf)"

fun f_neg :: "floating \<Rightarrow> floating" where
  "f_neg (Finite a) = Finite (- a)"
| "f_neg PosInf = NegInf"
| "f_neg NegInf = PosInf"
| "f_neg NaN = NaN"

text \<open>
  The float operations the program performs have a finite first operand (\<open>1.0 + x\<close>,
  \<open>100 - x\<close>, \<open>w * x\<close>) or a finite, nonzero divisor (\<open>x / w\<close>,
  \<open>x / 10\<close>).
\<close>

fun f_add :: "rat \<Rightarrow> floating \<Rightarrow> floating" where
  "f_add a (Finite b) = fl (a + b)"
| "f_add a PosInf = PosInf"
| "f_add a NegInf = NegInf"
| "f_add a NaN = NaN"

definition f_sub :: "rat \<Rightarrow> floating \<Rightarrow> floating" where
  "f_sub a x = f_add a (f_neg x)"

fun f_mul :: "rat \<Rightarrow> floating \<Rightarrow> floating" where
  "f_mul a (Finite b) = fl (a * b)"
| "f_mul a PosInf = (if a = 0 then NaN else if 0 < a then PosInf else NegInf)"
| "f_mul a NegInf = (if a = 0 then NaN else if 0 < a then NegInf else PosInf)"
| "f_mul a NaN = NaN"

fun f_div :: "floating \<Rightarrow> rat \<Rightarrow> floating" where
  "f_div (Finite a) b = fl (a / b)"
| "f_div PosInf b = (if 0 < b then PosInf else NegInf)"
| "f_div NegInf b = (if 0 < b then NegInf else PosInf)"
| "f_div NaN b = NaN"

text \<open>\<open>x < y\<close> on floats: false when either is not a number.\<close>

fun f_less :: "floating \<Rightarrow> floating \<Rightarrow> bool" where
  "f_less (Finite a) (Finite b) = (a < b)"
| "f_less NaN y = False"
| "f_less x NaN = False"
| "f_less x NegInf = False"
| "f_less PosInf y = False"
| "f_less NegInf y = True"
| "f_less x PosInf = True"

text \<open>
  \<open>min(a, b)\<close> of the built-ins keeps \<open>a\<close> unless \<open>b < a\<close>.
\<close>

definition py_min :: "floating \<Rightarrow> floating \<Rightarrow> floating" where
  "py_min a b = (if f_less b a then b else a)"

text \<open>
  A number is an \<open>int\<close> (of any size; a \<open>bool\<close> is one) or a \<open>float\<close>.
\<close>

datatype pynum = NInt int | NFloat floating

fun py_number :: "pyval \<Rightarrow> pynum option" where
  "py_number (PInt i) = Some (NInt i)"
| "py_number (PBool b) = Some (NInt (if b then 1 else 0))"
| "py_number (PFloat r) = Some (NFloat (Finite r))"
| "py_number PInf = Some (NFloat PosInf)"
| "py_number PNegInf = Some (NFloat NegInf)"
| "py_number PNaN = Some (NFloat NaN)"
| "py_number _ = None"

definition to_pynum :: "pyval \<Rightarrow> error + pynum" where
  "to_pynum v = (case py_number v of None \<Rightarrow> Inl TypeError | Some n \<Rightarrow> Inr n)"

fun float_pyval :: "floating \<Rightarrow> pyval" where
  "float_pyval (Finite r) = PFloat r"
| "float_pyval PosInf = PInf"
| "float_pyval NegInf = PNegInf"
| "float_pyval NaN = PNaN"

text \<open>
  The conversion of an \<open>int\<close> operand to a float rounds, and raises
  \<open>OverflowError\<close> when the integer is too large.
\<close>

definition int_to_float :: "int \<Rightarrow> error + rat" where
  "int_to_float n =
     (case round_double (of_int n) of None \<Rightarrow> Inl OverflowError | Some r \<Rightarrow> Inr r)"

fun operand_float :: "pynum \<Rightarrow> error + floating" where
  "operand_float (NInt n) = map_sum id Finite (int_to_float n)"
| "operand_float (NFloat x) = Inr x"

text \<open>\<open>int(x)\<close> on a float.\<close>

fun float_to_int :: "floating \<Rightarrow> error + int" where
  "float_to_int (Finite r) = Inr (py_int r)"
| "float_to_int NaN = Inl ValueError"
| "float_to_int x = Inl OverflowError"

text \<open>
  \<open>a / b\<close> with an \<open>int\<close> divisor. Two integers are divided exactly and the
  quotient is rounded once (\<open>OverflowError\<close> when it is too large); a float is
  divided by the divisor converted to a float.
\<close>

definition py_truediv :: "pynum \<Rightarrow> int \<Rightarrow> error + floating" where
  "py_truediv a b =
     (case a of
        NInt i \<Rightarrow>
          if b = 0 then Inl ZeroDivisionError
          else (case round_double (of_int i / of_int b) of
                  None \<Rightarrow> Inl OverflowError
                | Some r \<Rightarrow> Inr (Finite r))
      | NFloat x \<Rightarrow>
          ebind (int_to_float b) (\<lambda>d.
          if d = 0 then Inl ZeroDivisionError else Inr (f_div x d)))"

text \<open>\<open>x < n\<close> for an exact value and a number: the comparison is exact.\<close>

fun num_less :: "rat \<Rightarrow> pynum \<Rightarrow> bool" where
  "num_less x (NInt n) = (x < of_int n)"
| "num_less x (NFloat y) = f_less (Finite x) y"

text \<open>\<open>n <= v\<close> for an integer and a number.\<close>

fun num_le :: "int \<Rightarrow> pynum \<Rightarrow> bool" where
  "num_le n (NInt m) = (n \<le> m)"
| "num_le n (NFloat (Finite r)) = (of_int n \<le> r)"
| "num_le n (NFloat PosInf) = True"
| "num_le n (NFloat y) = False"

section \<open>Paths (\<open>os.path\<close> on POSIX) and the output namer of \<open>utils.py\<close>\<close>

definition basename :: "string \<Rightarrow> string" where
  "basename p = rev (takeWhile (\<lambda>c. c \<noteq> CHR ''/'') (rev p))"

text \<open>\<open>p.rfind(c)\<close>: the last index of \<open>c\<close>, or \<open>-1\<close>.\<close>

definition rfind :: "char \<Rightarrow> string \<Rightarrow> int" where
  "rfind c p =
     (if c \<in> set p then int (length p) - 1 - int (length (takeWhile (\<lambda>x. x \<noteq> c) (rev p)))
      else - 1)"

text \<open>The loop of \<open>splitext\<close> that skips the leading dots of the file name.\<close>

fun has_nondot :: "string \<Rightarrow> bool" where
  "has_nondot [] = False"
| "has_nondot (c # cs) = (if c \<noteq> CHR ''.'' then True else has_nondot cs)"

definition splitext :: "string \<Rightarrow> string \<times> string" where
  "splitext p =
     (let sepIndex = rfind CHR ''/'' p; dotIndex = rfind CHR ''.'' p in
      if dotIndex > sepIndex \<and>
         has_nondot (take (nat (dotIndex - (sepIndex + 1))) (drop (nat (sepIndex + 1)) p))
      then (take (nat dotIndex) p, drop (nat dotIndex) p)
      else (p, []))"

definition path_join :: "string \<Rightarrow> string \<Rightarrow> string" where
  "path_join a b =
     (if b \<noteq> [] \<and> hd b = CHR ''/'' then b
      else if a = [] \<or> last a = CHR ''/'' then a @ b
      else a @ ''/'' @ b)"

definition generate_output_filename ::
  "string \<Rightarrow> string \<Rightarrow> string \<Rightarrow> string \<Rightarrow> bool \<Rightarrow> string" where
  "generate_output_filename input_path output_dir prefix output_format keep_original_name =
     (let basename' = basename input_path;
          name_without_ext = fst (splitext basename');
          output_name =
            (if keep_original_name then prefix @ name_without_ext @ ''.'' @ output_format
             else prefix @ fst (splitext basename') @ ''.'' @ output_format)
      in path_join output_dir output_name)"

section \<open>Arrays (\<open>numpy.ndarray\<close>)\<close>

text \<open>
  An array is its shape and its elements in row-major order. An image is an array of
  8-bit unsigned samples: shape \<open>[h, w]\<close> for a grey image, \<open>[h, w, c]\<close> for an
  image of \<open>c\<close> channels. The elements of a \<open>float32\<close> array are floating-point
  values.
\<close>

record 'a ndarray =
  shape :: "nat list"
  data :: "'a list"

type_synonym image = "8 word ndarray"

definition wf_array :: "'a ndarray \<Rightarrow> bool" where
  "wf_array a = (length (data a) = prod_list (shape a))"

text \<open>
  NumPy's broadcasting of two shapes, aligned at their last axes: two extents fit when
  they are equal or one of them is 1.
\<close>

fun bshape_rev :: "nat list \<Rightarrow> nat list \<Rightarrow> nat list option" where
  "bshape_rev [] ys = Some ys"
| "bshape_rev (x # xs) [] = Some (x # xs)"
| "bshape_rev (x # xs) (y # ys) =
     (if x = y \<or> y = 1 then map_option ((#) x) (bshape_rev xs ys)
      else if x = 1 then map_option ((#) y) (bshape_rev xs ys)
      else None)"

definition broadcast_shapes :: "nat list \<Rightarrow> nat list \<Rightarrow> nat list option" where
  "broadcast_shapes s t = map_option rev (bshape_rev (rev s) (rev t))"

fun chunks :: "nat \<Rightarrow> nat \<Rightarrow> 'a list \<Rightarrow> 'a list list" where
  "chunks n 0 xs = []"
| "chunks n (Suc k) xs = take n xs # chunks n k (drop n xs)"

text \<open>
  The elements of an array of shape \<open>s\<close> seen at shape \<open>t\<close> (of the same rank):
  an axis of extent 1 is repeated.
\<close>

fun bcast :: "nat list \<Rightarrow> nat list \<Rightarrow> 'a list \<Rightarrow> 'a list" where
  "bcast (s # ss) (t # ts) d =
     (if s = t then concat (map (bcast ss ts) (chunks (prod_list ss) s d))
      else concat (replicate t (bcast ss ts d)))"
| "bcast [] ts d = d"
| "bcast (s # ss) [] d = d"

definition broadcast_to :: "nat list \<Rightarrow> 'a ndarray \<Rightarrow> 'a list" where
  "broadcast_to t a = bcast (replicate (length t - length (shape a)) 1 @ shape a) t (data a)"

text \<open>An element-wise operation on one array (or on an array and a scalar).\<close>

definition np_map :: "('a \<Rightarrow> 'b) \<Rightarrow> 'a ndarray \<Rightarrow> 'b ndarray" where
  "np_map f a = \<lparr>shape = shape a, data = map f (data a)\<rparr>"

text \<open>An element-wise operation on two arrays; shapes that do not fit raise \<open>ValueError\<close>.\<close>

definition np_binop :: "('a \<Rightarrow> 'b \<Rightarrow> 'c) \<Rightarrow> 'a ndarray \<Rightarrow> 'b ndarray \<Rightarrow> error + 'c ndarray" where
  "np_binop f a b =
     (case broadcast_shapes (shape a) (shape b) of
        None \<Rightarrow> Inl ValueError
      | Some s \<Rightarrow> Inr \<lparr>shape = s, data = map2 f (broadcast_to s a) (broadcast_to s b)\<rparr>)"

text \<open>\<open>np.where(mask, a, b)\<close>\<close>

definition np_where :: "bool ndarray \<Rightarrow> 'a ndarray \<Rightarrow> 'a ndarray \<Rightarrow> error + 'a ndarray" where
  "np_where m a b =
     (case broadcast_shapes (shape m) (shape a) of
        None \<Rightarrow> Inl ValueError
      | Some s1 \<Rightarrow>
          (case broadcast_shapes s1 (shape b) of
             None \<Rightarrow> Inl ValueError
           | Some s \<Rightarrow>
               Inr \<lparr>shape = s,
                    data = map2 (\<lambda>c xy. if c then fst xy else snd xy) (broadcast_to s m)
                             (zip (broadcast_to s a) (broadcast_to s b))\<rparr>))"

text \<open>
  The value of an 8-bit sample, and \<open>a.astype(np.float32)\<close> on an image: every
  sample is a \<open>float32\<close>.
\<close>

definition u8_to_f32 :: "8 word \<Rightarrow> rat" where
  "u8_to_f32 w = of_nat (unat w)"

definition astype_float32 :: "8 word \<Rightarrow> floating" where
  "astype_float32 w = Finite (u8_to_f32 w)"

text \<open>\<open>np.clip(x, 0, 255)\<close> on an element.\<close>

fun np_clip :: "floating \<Rightarrow> floating" where
  "np_clip (Finite r) = Finite (max 0 (min 255 r))"
| "np_clip PosInf = Finite 255"
| "np_clip NegInf = Finite 0"
| "np_clip NaN = NaN"

text \<open>\<open>np.abs\<close> on an unsigned array changes nothing.\<close>

definition np_abs_u8 :: "image \<Rightarrow> image" where
  "np_abs_u8 a = np_map (\<lambda>w. w) a"

section \<open>The OpenCV primitives\<close>

text \<open>
  OpenCV is not part of the repository: its functions are parameters of the model, each a
  function that returns an array or raises. \<open>np_array\<close> is NumPy's conversion of a
  configuration value (a nested list of numbers) to an array, \<open>py_str\<close> is Python's
  formatting of a configuration value that is not a string.

  The arithmetic of NumPy on the elements of floating-point arrays (rounded to the width of
  the array) is a parameter as well: \<open>scalar_times\<close> is the product of a Python number
  and an element, \<open>np_arith\<close> an operation on two elements, \<open>astype_uint8\<close> the
  conversion of an element to an 8-bit sample.

  So are the console and \<open>pathlib\<close>: \<open>can_print s\<close> tells whether the console
  encodes a message that embeds the string \<open>s\<close> (\<open>print\<close> raises
  \<open>UnicodeEncodeError\<close> when it cannot), and \<open>path_name p\<close> is
  \<open>Path(p).name\<close>.
\<close>

datatype arith_op = OpAdd | OpSub | OpMul | OpDiv

datatype color_code = COLOR_BGR2GRAY | COLOR_GRAY2BGR

record primitives =
  imread :: "string \<Rightarrow> error + image option"
  imwrite :: "string \<Rightarrow> image \<Rightarrow> pyval list \<Rightarrow> error + bool"
  resize :: "image \<Rightarrow> pyval \<Rightarrow> pyval \<Rightarrow> error + image"
  GaussianBlur :: "image \<Rightarrow> pyval \<Rightarrow> pyval \<Rightarrow> error + image"
  blur :: "image \<Rightarrow> pyval \<Rightarrow> error + image"
  medianBlur :: "image \<Rightarrow> pyval \<Rightarrow> error + image"
  bilateralFilter :: "image \<Rightarrow> pyval \<Rightarrow> pyval \<Rightarrow> pyval \<Rightarrow> error + image"
  fastNlMeansDenoisingColored ::
    "image \<Rightarrow> pyval \<Rightarrow> pyval \<Rightarrow> pyval \<Rightarrow> pyval \<Rightarrow> error + image"
  fastNlMeansDenoising :: "image \<Rightarrow> pyval \<Rightarrow> pyval \<Rightarrow> pyval \<Rightarrow> error + image"
  Laplacian :: "floating ndarray \<Rightarrow> error + floating ndarray"
  addWeighted :: "image \<Rightarrow> pyval \<Rightarrow> image \<Rightarrow> pyval \<Rightarrow> pyval \<Rightarrow> error + image"
  filter2D :: "image \<Rightarrow> int \<Rightarrow> rat ndarray \<Rightarrow> error + image"
  cvtColor :: "image \<Rightarrow> color_code \<Rightarrow> error + image"
  Canny :: "image \<Rightarrow> int \<Rightarrow> int \<Rightarrow> error + image"
  dilate :: "image \<Rightarrow> nat \<Rightarrow> error + image"
  np_array :: "pyval \<Rightarrow> error + rat ndarray"
  scalar_times :: "pynum \<Rightarrow> floating \<Rightarrow> floating"
  np_arith :: "arith_op \<Rightarrow> floating \<Rightarrow> floating \<Rightarrow> floating"
  astype_uint8 :: "floating \<Rightarrow> 8 word"
  py_str :: "pyval \<Rightarrow> string"
  can_print :: "string \<Rightarrow> bool"
  path_name :: "string \<Rightarrow> string"

section \<open>\<open>filters.py\<close>: the denoise filters\<close>

definition gaussian_denoise :: "primitives \<Rightarrow> image \<Rightarrow> pyval \<Rightarrow> pyval \<Rightarrow> error + image" where
  "gaussian_denoise P img kernel_size sigma = GaussianBlur P img kernel_size sigma"

definition mean_denoise :: "primitives \<Rightarrow> image \<Rightarrow> pyval \<Rightarrow> error + image" where
  "mean_denoise P img kernel_size = blur P img kernel_size"

definition median_denoise :: "primitives \<Rightarrow> image \<Rightarrow> pyval \<Rightarrow> error + image" where
  "median_denoise P img kernel_size = medianBlur P img kernel_size"

definition bilateral_denoise ::
  "primitives \<Rightarrow> image \<Rightarrow> pyval \<Rightarrow> pyval \<Rightarrow> pyval \<Rightarrow> error + image" where
  "bilateral_denoise P img d sigma_color sigma_space =
     bilateralFilter P img d sigma_color sigma_space"

definition nlmeans_denoise ::
  "primitives \<Rightarrow> image \<Rightarrow> pyval \<Rightarrow> pyval \<Rightarrow> pyval \<Rightarrow> error + image" where
  "nlmeans_denoise P img h template_window_size search_window_size =
     (if length (shape img) = 3
      then fastNlMeansDenoisingColored P img h h template_window_size search_window_size
      else fastNlMeansDenoising P img h template_window_size search_window_size)"

section \<open>\<open>filters.py\<close>: the sharpen filters\<close>

text \<open>
  \<open>1.0 + v\<close> and \<open>-v\<close> for a configuration value: \<open>TypeError\<close> unless
  it is a number. The sum is a float; the negation of an \<open>int\<close> is an \<open>int\<close>.
\<close>

definition py_one_plus :: "pyval \<Rightarrow> error + pyval" where
  "py_one_plus v =
     ebind (to_pynum v) (\<lambda>n.
     ebind (operand_float n) (\<lambda>x.
     Inr (float_pyval (f_add 1 x))))"

definition py_neg :: "pyval \<Rightarrow> error + pyval" where
  "py_neg v =
     ebind (to_pynum v) (\<lambda>n.
     Inr (case n of NInt i \<Rightarrow> PInt (- i) | NFloat x \<Rightarrow> float_pyval (f_neg x)))"

text \<open>
  \<open>v * a\<close> for a configuration value and a floating-point array: a number scales
  every element; NumPy converts a list to an array and multiplies element-wise,
  broadcasting; anything else raises \<open>TypeError\<close>.
\<close>

definition py_mul_array ::
  "primitives \<Rightarrow> pyval \<Rightarrow> floating ndarray \<Rightarrow> error + floating ndarray" where
  "py_mul_array P v a =
     (case py_number v of
        Some s \<Rightarrow> Inr (np_map (scalar_times P s) a)
      | None \<Rightarrow>
          (case v of
             PList xs \<Rightarrow>
               ebind (np_array P v) (\<lambda>k. np_binop (\<lambda>x y. np_arith P OpMul (Finite x) y) k a)
           | PTuple xs \<Rightarrow>
               ebind (np_array P v) (\<lambda>k. np_binop (\<lambda>x y. np_arith P OpMul (Finite x) y) k a)
           | _ \<Rightarrow> Inl TypeError))"

definition laplacian_sharpen :: "primitives \<Rightarrow> image \<Rightarrow> pyval \<Rightarrow> error + image" where
  "laplacian_sharpen P img strength =
     (let img_float = np_map astype_float32 img in
      ebind (Laplacian P img_float) (\<lambda>laplacian.
      ebind (py_mul_array P strength laplacian) (\<lambda>scaled.
      ebind (np_binop (np_arith P OpSub) img_float scaled) (\<lambda>sharpened.
      Inr (np_map (astype_uint8 P) (np_map np_clip sharpened))))))"

text \<open>
  In \<open>unsharp_mask\<close> the threshold is compared as a number (\<open>threshold > 0\<close>,
  and every sample of the difference with \<open>< threshold\<close>); the difference
  \<open>image - blurred\<close> is computed on 8-bit samples.
\<close>

definition unsharp_mask ::
  "primitives \<Rightarrow> image \<Rightarrow> pyval \<Rightarrow> pyval \<Rightarrow> pyval \<Rightarrow> error + image" where
  "unsharp_mask P img sigma strength threshold =
     ebind (GaussianBlur P img (PTuple [PInt 0, PInt 0]) sigma) (\<lambda>blurred.
     ebind (py_one_plus strength) (\<lambda>alpha.
     ebind (py_neg strength) (\<lambda>beta.
     ebind (addWeighted P img alpha blurred beta (PInt 0)) (\<lambda>sharpened.
     ebind (to_pynum threshold) (\<lambda>t.
     if num_less 0 t then
       ebind (np_binop (-) img blurred) (\<lambda>diff.
       let low_contrast_mask = np_map (\<lambda>d. num_less (u8_to_f32 d) t) (np_abs_u8 diff) in
       np_where low_contrast_mask img sharpened)
     else Inr sharpened)))))"

text \<open>The kernel used when none is supplied.\<close>

definition default_kernel :: "rat ndarray" where
  "default_kernel = \<lparr>shape = [3, 3], data = [0, - 1, 0, - 1, 5, - 1, 0, - 1, 0]\<rparr>"

definition custom_kernel_sharpen ::
  "primitives \<Rightarrow> image \<Rightarrow> rat ndarray option \<Rightarrow> error + image" where
  "custom_kernel_sharpen P img kern =
     (let kernel' = (case kern of None \<Rightarrow> default_kernel | Some k \<Rightarrow> k)
      in filter2D P img (- 1) kernel')"

definition adaptive_sharpen :: "primitives \<Rightarrow> image \<Rightarrow> pyval \<Rightarrow> error + image" where
  "adaptive_sharpen P img strength =
     ebind (if length (shape img) = 3 then cvtColor P img COLOR_BGR2GRAY else Inr img)
       (\<lambda>gray.
     ebind (Canny P gray 50 150) (\<lambda>edges.
     ebind (dilate P edges 1) (\<lambda>edges.
     ebind (unsharp_mask P img (PFloat 1) strength (PInt 0)) (\<lambda>sharpened.
     ebind (if length (shape img) = 3 then cvtColor P edges COLOR_GRAY2BGR else Inr edges)
       (\<lambda>edge_mask.
     let edge_mask = np_map (\<lambda>w. np_arith P OpDiv (astype_float32 w) (Finite 255)) edge_mask in
     ebind (np_binop (\<lambda>s m. np_arith P OpMul (astype_float32 s) m) sharpened edge_mask) (\<lambda>a.
     ebind (np_binop (\<lambda>i m. np_arith P OpMul (astype_float32 i) m) img
              (np_map (\<lambda>m. np_arith P OpSub (Finite 1) m) edge_mask)) (\<lambda>b.
     ebind (np_binop (np_arith P OpAdd) a b) (\<lambda>result.
     Inr (np_map (astype_uint8 P) result)))))))))"

section \<open>\<open>filters.py\<close>: the selectors\<close>

definition apply_denoise :: "primitives \<Rightarrow> image \<Rightarrow> pyval \<Rightarrow> pyval \<Rightarrow> error + image" where
  "apply_denoise P img mode params =
     (if mode = PStr ''gaussian'' then
        ebind (py_get params ''kernel_size'' (PList [PInt 5, PInt 5])) (\<lambda>ks.
        ebind (py_tuple ks) (\<lambda>kernel_size.
        ebind (py_get params ''sigma'' (PFloat 1)) (\<lambda>sigma.
        gaussian_denoise P img kernel_size sigma)))
      else if mode = PStr ''mean'' then
        ebind (py_get params ''kernel_size'' (PList [PInt 5, PInt 5])) (\<lambda>ks.
        ebind (py_tuple ks) (\<lambda>kernel_size.
        mean_denoise P img kernel_size))
      else if mode = PStr ''median'' then
        ebind (py_get params ''kernel_size'' (PInt 5)) (\<lambda>kernel_size.
        median_denoise P img kernel_size)
      else if mode = PStr ''bilateral'' then
        ebind (py_get params ''d'' (PInt 9)) (\<lambda>d.
        ebind (py_get params ''sigma_color'' (PInt 75)) (\<lambda>sigma_color.
        ebind (py_get params ''sigma_space'' (PInt 75)) (\<lambda>sigma_space.
        bilateral_denoise P img d sigma_color sigma_space)))
      else if mode = PStr ''nlmeans'' then
        ebind (py_get params ''h'' (PInt 10)) (\<lambda>h.
        ebind (py_get params ''template_window_size'' (PInt 7)) (\<lambda>template_window_size.
        ebind (py_get params ''search_window_size'' (PInt 21)) (\<lambda>search_window_size.
        nlmeans_denoise P img h template_window_size search_window_size)))
      else Inl ValueError)"

definition apply_sharpen :: "primitives \<Rightarrow> image \<Rightarrow> pyval \<Rightarrow> pyval \<Rightarrow> error + image" where
  "apply_sharpen P img mode params =
     (if mode = PStr ''laplacian'' then
        ebind (py_get params ''strength'' (PFloat (1 / 2))) (\<lambda>strength.
        laplacian_sharpen P img strength)
      else if mode = PStr ''unsharp_mask'' then
        ebind (py_get params ''sigma'' (PFloat 1)) (\<lambda>sigma.
        ebind (py_get params ''strength'' (PFloat (3 / 2))) (\<lambda>strength.
        ebind (py_get params ''threshold'' (PInt 0)) (\<lambda>threshold.
        unsharp_mask P img sigma strength threshold)))
      else if mode = PStr ''custom'' then
        ebind (py_get params ''kernel'' PNone) (\<lambda>kern.
        ebind (if kern \<noteq> PNone then map_sum id Some (np_array P kern) else Inr None)
          (\<lambda>kern.
        custom_kernel_sharpen P img kern))
      else if mode = PStr ''adaptive'' then
        ebind (py_get params ''strength'' (PFloat 1)) (\<lambda>strength.
        adaptive_sharpen P img strength)
      else Inl ValueError)"

section \<open>\<open>processor.py\<close>: the pipeline\<close>

record ImageProcessor =
  denoise_config :: pyval
  sharpen_config :: pyval
  output_config :: pyval
  processing_config :: pyval
  verbose :: pyval

definition ImageProcessor_init :: "pyval \<Rightarrow> error + ImageProcessor" where
  "ImageProcessor_init config =
     ebind (py_get config ''denoise'' (PDict [])) (\<lambda>dc.
     ebind (py_get config ''sharpen'' (PDict [])) (\<lambda>sc.
     ebind (py_get config ''output'' (PDict [])) (\<lambda>oc.
     ebind (py_get config ''processing'' (PDict [])) (\<lambda>pc.
     ebind (py_get config ''verbose'' (PBool True)) (\<lambda>v.
     Inr \<lparr>denoise_config = dc, sharpen_config = sc, output_config = oc,
          processing_config = pc, verbose = v\<rparr>)))))"

text \<open>\<open>n <= v\<close> for an integer and a configuration value.\<close>

definition py_le :: "nat \<Rightarrow> pyval \<Rightarrow> error + bool" where
  "py_le n v = ebind (to_pynum v) (\<lambda>x. Inr (num_le (int n) x))"

text \<open>
  \<open>int(n * scale)\<close> for an integer and a float: the integer is converted to a float,
  the product is rounded, and \<open>int\<close> truncates it.
\<close>

definition scaled_size :: "nat \<Rightarrow> floating \<Rightarrow> error + int" where
  "scaled_size n scale = ebind (int_to_float (int n)) (\<lambda>x. float_to_int (f_mul x scale))"

text \<open>
  \<open>_resize_image\<close>. \<open>h, w = image.shape[:2]\<close> raises \<open>ValueError\<close> on an array of
  fewer than two axes. In \<open>w <= max_width and h <= max_height\<close> the second comparison
  is only made when the first is true.
\<close>

definition ImageProcessor_resize_image ::
  "primitives \<Rightarrow> ImageProcessor \<Rightarrow> image \<Rightarrow> error + image" where
  "ImageProcessor_resize_image P self img =
     ebind (py_get (processing_config self) ''max_width'' (PInt 1920)) (\<lambda>max_width.
     ebind (py_get (processing_config self) ''max_height'' (PInt 1080)) (\<lambda>max_height.
     ebind (py_get (processing_config self) ''preserve_aspect_ratio'' (PBool True))
       (\<lambda>preserve_aspect.
     case shape img of
       h # w # _ \<Rightarrow>
         ebind (py_le w max_width) (\<lambda>w_ok.
         ebind (if w_ok then py_le h max_height else Inr False) (\<lambda>fits.
         if fits then Inr img
         else
           ebind
             (if py_truthy preserve_aspect then
                ebind (to_pynum max_width) (\<lambda>mw.
                ebind (py_truediv mw (int w)) (\<lambda>sw.
                ebind (to_pynum max_height) (\<lambda>mh.
                ebind (py_truediv mh (int h)) (\<lambda>sh.
                let scale = py_min sw sh in
                ebind (scaled_size w scale) (\<lambda>new_w.
                ebind (scaled_size h scale) (\<lambda>new_h.
                Inr (PInt new_w, PInt new_h)))))))
              else Inr (max_width, max_height))
             (\<lambda>(new_w, new_h). resize P img new_w new_h)))
     | _ \<Rightarrow> Inl ValueError)))"

definition ImageProcessor_apply_denoise ::
  "primitives \<Rightarrow> ImageProcessor \<Rightarrow> image \<Rightarrow> error + image" where
  "ImageProcessor_apply_denoise P self img =
     ebind (py_get (denoise_config self) ''mode'' (PStr ''bilateral'')) (\<lambda>mode.
     ebind (py_get_val (denoise_config self) mode (PDict [])) (\<lambda>params.
     try_except (apply_denoise P img mode params) (\<lambda>e. Inr img)))"

definition ImageProcessor_apply_sharpen ::
  "primitives \<Rightarrow> ImageProcessor \<Rightarrow> image \<Rightarrow> error + image" where
  "ImageProcessor_apply_sharpen P self img =
     ebind (py_get (sharpen_config self) ''mode'' (PStr ''unsharp_mask'')) (\<lambda>mode.
     ebind (py_get_val (sharpen_config self) mode (PDict [])) (\<lambda>params.
     try_except (apply_sharpen P img mode params) (\<lambda>e. Inr img)))"

text \<open>The OpenCV flag constants of \<open>imwrite\<close>.\<close>

definition IMWRITE_JPEG_QUALITY :: pyval where "IMWRITE_JPEG_QUALITY = PInt 1"
definition IMWRITE_PNG_COMPRESSION :: pyval where "IMWRITE_PNG_COMPRESSION = PInt 16"
definition IMWRITE_WEBP_QUALITY :: pyval where "IMWRITE_WEBP_QUALITY = PInt 64"

text \<open>\<open>s.lower()\<close> on ASCII letters; only a string has the method.\<close>

definition lower_char :: "char \<Rightarrow> char" where
  "lower_char c =
     (let n = (of_char c :: nat) in if 65 \<le> n \<and> n \<le> 90 then char_of (n + 32) else c)"

fun py_lower :: "pyval \<Rightarrow> error + string" where
  "py_lower (PStr s) = Inr (map lower_char s)"
| "py_lower _ = Inl AttributeError"

text \<open>
  \<open>max(0, min(9, int((100 - quality) / 10)))\<close>. For an \<open>int\<close> quality the
  difference is an integer and the division rounds once; for a \<open>float\<close> quality the
  difference is a float, rounded, and the division rounds again.
\<close>

definition png_compression :: "pyval \<Rightarrow> error + int" where
  "png_compression quality =
     ebind (to_pynum quality) (\<lambda>q.
     ebind (py_truediv (case q of NInt i \<Rightarrow> NInt (100 - i) | NFloat x \<Rightarrow> NFloat (f_sub 100 x)) 10)
       (\<lambda>level.
     ebind (float_to_int level) (\<lambda>n.
     Inr (max 0 (min 9 n)))))"

definition ImageProcessor_save_image ::
  "primitives \<Rightarrow> ImageProcessor \<Rightarrow> image \<Rightarrow> string \<Rightarrow> error + bool" where
  "ImageProcessor_save_image P self img output_path =
     ebind (py_get (output_config self) ''format'' (PStr ''png'')) (\<lambda>f.
     ebind (py_lower f) (\<lambda>output_format.
     ebind (py_get (output_config self) ''quality'' (PInt 95)) (\<lambda>quality.
     ebind
       (if output_format = ''jpg'' \<or> output_format = ''jpeg''
        then Inr [IMWRITE_JPEG_QUALITY, quality]
        else if output_format = ''png''
        then ebind (png_compression quality) (\<lambda>compression.
             Inr [IMWRITE_PNG_COMPRESSION, PInt compression])
        else if output_format = ''webp'' then Inr [IMWRITE_WEBP_QUALITY, quality]
        else Inr [])
       (\<lambda>params.
     try_except (imwrite P output_path img params) (\<lambda>e. Inr False)))))"


text \<open>
  The stages of \<open>process_image\<close> between decoding and naming: the optional resize,
  the denoise stage, the optional sharpen stage.
\<close>

definition resize_stage :: "primitives \<Rightarrow> ImageProcessor \<Rightarrow> image \<Rightarrow> error + image" where
  "resize_stage P self img =
     ebind (py_get (processing_config self) ''resize'' (PBool False)) (\<lambda>do_resize.
     if py_truthy do_resize then ImageProcessor_resize_image P self img else Inr img)"

definition sharpen_stage :: "primitives \<Rightarrow> ImageProcessor \<Rightarrow> image \<Rightarrow> error + image" where
  "sharpen_stage P self img =
     ebind (py_get (sharpen_config self) ''enabled'' (PBool True)) (\<lambda>enabled.
     if py_truthy enabled then ImageProcessor_apply_sharpen P self img else Inr img)"

definition run_stages :: "primitives \<Rightarrow> ImageProcessor \<Rightarrow> image \<Rightarrow> error + image" where
  "run_stages P self img =
     ebind (resize_stage P self img) (\<lambda>img.
     ebind (ImageProcessor_apply_denoise P self img) (\<lambda>img.
     sharpen_stage P self img))"




section \<open>Concrete primitives, to run the model\<close>

text \<open>
  Arithmetic on finite floating-point values without rounding, and truncation to 8 bits:
  the element operations of the instances below.
\<close>

fun exact_arith :: "arith_op \<Rightarrow> floating \<Rightarrow> floating \<Rightarrow> floating" where
  "exact_arith OpAdd (Finite a) (Finite b) = Finite (a + b)"
| "exact_arith OpSub (Finite a) (Finite b) = Finite (a - b)"
| "exact_arith OpMul (Finite a) (Finite b) = Finite (a * b)"
| "exact_arith OpDiv (Finite a) (Finite b) = Finite (a / b)"
| "exact_arith _ _ _ = NaN"

fun exact_times :: "pynum \<Rightarrow> floating \<Rightarrow> floating" where
  "exact_times (NInt i) (Finite b) = Finite (of_int i * b)"
| "exact_times (NFloat (Finite a)) (Finite b) = Finite (a * b)"
| "exact_times _ _ = NaN"

fun truncate_u8 :: "floating \<Rightarrow> 8 word" where
  "truncate_u8 (Finite r) = word_of_int (py_int r)"
| "truncate_u8 _ = 0"

text \<open>
  Two instances of the primitives on which the model can be evaluated. In the first,
  every filter returns its input (colour conversion keeps or triples the samples), the
  decoder returns a one-pixel colour image, the writer succeeds and the console prints
  every message. In the second, every filter raises.
\<close>

definition pixel :: image where
  "pixel = \<lparr>shape = [1, 1, 3], data = [10, 20, 30]\<rparr>"

definition identity_primitives :: primitives where
  "identity_primitives =
     \<lparr>imread = (\<lambda>p. Inr (Some pixel)),
      imwrite = (\<lambda>p i ps. Inr True),
      resize = (\<lambda>i w h. Inr i),
      GaussianBlur = (\<lambda>i k s. Inr i),
      blur = (\<lambda>i k. Inr i),
      medianBlur = (\<lambda>i k. Inr i),
      bilateralFilter = (\<lambda>i d sc ss. Inr i),
      fastNlMeansDenoisingColored = (\<lambda>i h hc t s. Inr i),
      fastNlMeansDenoising = (\<lambda>i h t s. Inr i),
      Laplacian = (\<lambda>a. Inr (np_map (\<lambda>x. Finite 0) a)),
      addWeighted = (\<lambda>a al b be g. Inr a),
      filter2D = (\<lambda>i d k. Inr i),
      cvtColor = (\<lambda>i c. case c of
          COLOR_BGR2GRAY \<Rightarrow>
            (case shape i of
               [h, w, ch] \<Rightarrow>
                 if ch = 3 \<or> ch = 4
                 then Inr \<lparr>shape = [h, w], data = map hd (chunks ch (h * w) (data i))\<rparr>
                 else Inl cv2_error
             | _ \<Rightarrow> Inl cv2_error)
        | COLOR_GRAY2BGR \<Rightarrow>
            (case shape i of
               [h, w] \<Rightarrow> Inr \<lparr>shape = [h, w, 3], data = concat (map (\<lambda>x. [x, x, x]) (data i))\<rparr>
             | _ \<Rightarrow> Inl cv2_error)),
      Canny = (\<lambda>i lo hi. Inr i),
      dilate = (\<lambda>i n. Inr i),
      np_array = (\<lambda>v. Inl ValueError),
      scalar_times = exact_times,
      np_arith = exact_arith,
      astype_uint8 = truncate_u8,
      py_str = (\<lambda>v. ''None''),
      can_print = (\<lambda>s. True),
      path_name = basename\<rparr>"

definition failing_primitives :: primitives where
  "failing_primitives =
     identity_primitives
       \<lparr>GaussianBlur := (\<lambda>i k s. Inl cv2_error),
        blur := (\<lambda>i k. Inl cv2_error),
        medianBlur := (\<lambda>i k. Inl cv2_error),
        bilateralFilter := (\<lambda>i d sc ss. Inl cv2_error),
        fastNlMeansDenoisingColored := (\<lambda>i h hc t s. Inl cv2_error),
        fastNlMeansDenoising := (\<lambda>i h t s. Inl cv2_error),
        Laplacian := (\<lambda>a. Inl cv2_error),
        addWeighted := (\<lambda>a al b be g. Inl cv2_error),
        filter2D := (\<lambda>i d k. Inl cv2_error)\<rparr>"

text \<open>The processor built from the default configuration of \<open>utils.py\<close>.\<close>

definition default_processor :: ImageProcessor where
  "default_processor =
     \<lparr>denoise_config = PDict
        [(''mode'', PStr ''bilateral''),
         (''bilateral'', PDict [(''d'', PInt 9), (''sigma_color'', PInt 75),
                                (''sigma_space'', PInt 75)])],
      sharpen_config = PDict
        [(''enabled'', PBool True), (''mode'', PStr ''unsharp_mask''),
         (''unsharp_mask'', PDict [(''sigma'', PFloat 1), (''strength'', PFloat (3 / 2)),
                                   (''threshold'', PInt 0)])],
      output_config = PDict
        [(''format'', PStr ''png''), (''quality'', PInt 95), (''prefix'', PStr ''processed_''),
         (''keep_original_name'', PBool True)],
      processing_config = PDict
        [(''resize'', PBool False), (''max_width'', PInt 1920), (''max_height'', PInt 1080),
         (''preserve_aspect_ratio'', PBool True)],
      verbose = PBool True\<rparr>"

section \<open>The mode names of the specification\<close>




text \<open>
  Values of the default configuration, a decoder that cannot read the file, and a
  configuration whose denoise section is empty.
\<close>

definition bilateral_params :: pyval where
  "bilateral_params = PDict [(''d'', PInt 9), (''sigma_color'', PInt 75), (''sigma_space'', PInt 75)]"

definition unsharp_params :: pyval where
  "unsharp_params = PDict [(''sigma'', PFloat 1), (''strength'', PFloat (3 / 2)), (''threshold'', PInt 0)]"




section \<open>Channels, and a test double that tells the two non-local-means primitives apart\<close>

text \<open>
  The number of channels of an image array, as OpenCV reads it: the extent of the third
  axis, and 1 for an array of two axes.
\<close>

definition channels :: "image \<Rightarrow> nat" where
  "channels img = (case shape img of [h, w, c] \<Rightarrow> c | _ \<Rightarrow> 1)"

definition spy_primitives :: primitives where
  "spy_primitives =
     identity_primitives
       \<lparr>fastNlMeansDenoisingColored := (\<lambda>i h hc t s. Inr (np_map (\<lambda>x. 1) i)),
        fastNlMeansDenoising := (\<lambda>i h t s. Inr (np_map (\<lambda>x. 2) i))\<rparr>"

definition bgra_pixel :: image where
  "bgra_pixel = \<lparr>shape = [1, 1, 4], data = [10, 20, 30, 255]\<rparr>"

definition gray_pixel :: image where
  "gray_pixel = \<lparr>shape = [1, 1], data = [10]\<rparr>"

text \<open>A single-channel image stored with an explicit channel axis.\<close>

definition gray_pixel_3d :: image where
  "gray_pixel_3d = \<lparr>shape = [1, 1, 1], data = [10]\<rparr>"

text \<open>
  The value \<open>d.get(k, default)\<close> returns on a dictionary.
\<close>

definition lookup_default :: "(string \<times> pyval) list \<Rightarrow> string \<Rightarrow> pyval \<Rightarrow> pyval" where
  "lookup_default kvs k d = (case map_of kvs k of None \<Rightarrow> d | Some v \<Rightarrow> v)"

section \<open>Inputs for the resize stage\<close>

text \<open>
  A 3000 x 2000 colour image, a resize primitive that returns a blank image of the
  requested size, and a configuration that does not preserve the aspect ratio.
\<close>

definition photo :: image where
  "photo = \<lparr>shape = [2000, 3000, 3], data = replicate (2000 * 3000 * 3) 0\<rparr>"

definition resizing_primitives :: primitives where
  "resizing_primitives =
     identity_primitives
       \<lparr>resize := (\<lambda>i w h. case (w, h) of
           (PInt w', PInt h') \<Rightarrow>
             if 0 < w' \<and> 0 < h'
             then Inr \<lparr>shape = nat h' # nat w' # drop 2 (shape i),
                       data = replicate (nat h' * nat w' * prod_list (drop 2 (shape i))) 0\<rparr>
             else Inl cv2_error
         | _ \<Rightarrow> Inl cv2_error)\<rparr>"

definition stretching_processor :: ImageProcessor where
  "stretching_processor =
     default_processor\<lparr>processing_config := PDict [(''preserve_aspect_ratio'', PBool False)]\<rparr>"

section \<open>Reference arithmetic of OpenCV, and an image with a dark spot\<close>

text \<open>
  OpenCV's rounding of a real to an integer (ties to even) and its saturating cast to
  8 bits, as its documentation gives them; \<open>addWeighted\<close> is documented as
  \<open>saturate(src1 * alpha + src2 * beta + gamma)\<close> on every sample.
\<close>

definition cvRound :: "rat \<Rightarrow> int" where
  "cvRound x =
     (let f = \<lfloor>x\<rfloor>; r = x - of_int f in
      if r < 1 / 2 then f else if 1 / 2 < r then f + 1 else if even f then f else f + 1)"

definition saturate_u8 :: "int \<Rightarrow> 8 word" where
  "saturate_u8 v = word_of_int (max 0 (min 255 v))"

definition addWeighted_reference :: "image \<Rightarrow> rat \<Rightarrow> image \<Rightarrow> rat \<Rightarrow> rat \<Rightarrow> image" where
  "addWeighted_reference a alpha b beta gamma =
     \<lparr>shape = shape a,
      data = map2 (\<lambda>x y. saturate_u8 (cvRound (u8_to_f32 x * alpha + u8_to_f32 y * beta + gamma)))
               (data a) (data b)\<rparr>"

text \<open>
  A 3 x 3 grey image with a dark centre, a blurred version of it (the centre is lifted
  towards its neighbours), and primitives that return this blur and the documented
  weighted sum.
\<close>

definition dark_spot :: image where
  "dark_spot = \<lparr>shape = [3, 3], data = [110, 110, 110, 110, 100, 110, 110, 110, 110]\<rparr>"

definition dark_spot_blurred :: image where
  "dark_spot_blurred = \<lparr>shape = [3, 3], data = [108, 108, 108, 108, 107, 108, 108, 108, 108]\<rparr>"

definition blurring_primitives :: primitives where
  "blurring_primitives =
     identity_primitives
       \<lparr>GaussianBlur := (\<lambda>i k s. Inr dark_spot_blurred),
        addWeighted := (\<lambda>a al b be g.
           case (py_num al, py_num be, py_num g) of
             (Some x, Some y, Some z) \<Rightarrow> Inr (addWeighted_reference a x b y z)
           | _ \<Rightarrow> Inl cv2_error)\<rparr>"

definition dark_spot_sharp :: image where
  "dark_spot_sharp = \<lparr>shape = [3, 3], data = [113, 113, 113, 113, 90, 113, 113, 113, 113]\<rparr>"

section \<open>What OpenCV documents about shapes\<close>






section \<open>The documented \<open>filter2D\<close>, and flat images\<close>

text \<open>
  OpenCV's default border (\<open>BORDER_REFLECT_101\<close>): an index outside \<open>0..len-1\<close>
  is reflected at the first and last element, which are not repeated.
\<close>

definition reflect101 :: "int \<Rightarrow> nat \<Rightarrow> nat" where
  "reflect101 p len =
     (if len \<le> 1 then 0
      else let m = 2 * (int len - 1); q = p mod m in nat (if q < int len then q else m - q))"

text \<open>
  \<open>filter2D\<close> as OpenCV documents it, for an image of two or three axes and a
  two-axis kernel anchored at its centre: every channel is correlated with the kernel,
  \<open>dst(y, x) = sum of kernel(i, j) * src(y + i - kh div 2, x + j - kw div 2)\<close>, samples
  outside the image are taken by reflection, and the sum is rounded and saturated to 8 bits.
\<close>

definition filter2D_reference :: "image \<Rightarrow> rat ndarray \<Rightarrow> image" where
  "filter2D_reference img k =
     (let H = shape img ! 0; W = shape img ! 1; C = channels img;
          kh = shape k ! 0; kw = shape k ! 1
      in \<lparr>shape = shape img,
           data = map (\<lambda>idx.
               let c = idx mod C; x = (idx div C) mod W; y = idx div (C * W) in
               saturate_u8 (cvRound (sum_list (map (\<lambda>i. sum_list (map (\<lambda>j.
                 data k ! (i * kw + j) *
                 u8_to_f32 (data img !
                   ((reflect101 (int y + int i - int (kh div 2)) H * W
                     + reflect101 (int x + int j - int (kw div 2)) W) * C + c)))
                 [0..<kw])) [0..<kh]))))
             [0..<H * W * C]\<rparr>)"

text \<open>
  An image of one colour (one value per channel), and a grey image of one value.
\<close>

definition flat_image :: "nat \<Rightarrow> nat \<Rightarrow> 8 word list \<Rightarrow> image" where
  "flat_image h w colour = \<lparr>shape = [h, w, length colour], data = concat (replicate (h * w) colour)\<rparr>"

definition flat_gray :: "nat \<Rightarrow> nat \<Rightarrow> 8 word \<Rightarrow> image" where
  "flat_gray h w v = \<lparr>shape = [h, w], data = replicate (h * w) v\<rparr>"

text \<open>
  Primitives whose \<open>filter2D\<close> is the documented one.
\<close>

definition reference_primitives :: primitives where
  "reference_primitives =
     identity_primitives\<lparr>filter2D := (\<lambda>i d k. Inr (filter2D_reference i k))\<rparr>"

section \<open>Sequencing of steps that can raise\<close>



section \<open>The nearest double\<close>

text \<open>
  Facts about the rounding of Python's floats: \<open>ilog2\<close> is the binary exponent,
  every number of 53 significant bits within the exponent range is its own rounding,
  the rounding overflows from \<open>2^1024\<close> on, it keeps the sign, it does not cross an
  integer that is a double, and its error is at most half a unit of the last bit.
\<close>

lemma bits_bounds: "0 < n \<Longrightarrow> 2 ^ (bits n - 1) \<le> n \<and> n < 2 ^ bits n"
proof (induction n rule: bits.induct)
  case (1 n)
  show ?case
  proof (cases "n div 2 = 0")
    case True
    with 1 have "n = Suc 0" by (simp add: div_eq_0_iff) 
    then show ?thesis by (simp add: bits.simps [of "Suc 0"] bits.simps [of 0])
  next
    case False
    then have pos: "0 < n div 2" by simp
    from 1 have n0: "n \<noteq> 0" by simp
    from "1.IH" [OF n0 pos] have ih: "2 ^ (bits (n div 2) - 1) \<le> n div 2" "n div 2 < 2 ^ bits (n div 2)"
      by simp_all
    have b: "bits n = Suc (bits (n div 2))" using n0 by (simp add: bits.simps [of n])
    have bp: "0 < bits (n div 2)" using pos by (simp add: bits.simps [of "n div 2"])
    then have e: "2 ^ bits (n div 2) = 2 * (2::nat) ^ (bits (n div 2) - 1)"
      by (cases "bits (n div 2)") simp_all
    from ih(1) have "2 * 2 ^ (bits (n div 2) - 1) \<le> n" by arith
    moreover from ih(2) have "n < 2 * 2 ^ bits (n div 2)" by arith
    ultimately show ?thesis using b e by simp
  qed
qed

lemma ilog2_bounds:
  assumes "0 < x"
  shows "2 powi (ilog2 x) \<le> x" and "x < 2 powi (ilog2 x + 1)"
proof -
  have "2 powi (ilog2 x) \<le> x \<and> x < 2 powi (ilog2 x + 1)"
  proof (cases "1 \<le> x")
    case True
    let ?n = "nat \<lfloor>x\<rfloor>"
    from True have n: "0 < ?n" by simp
    from bits_bounds [OF n] have b: "2 ^ (bits ?n - 1) \<le> ?n" "?n < 2 ^ bits ?n" by simp_all
    from n have bp: "0 < bits ?n" by (simp add: bits.simps [of ?n])
    have i: "ilog2 x = int (bits ?n - 1)" using True bp by (simp add: ilog2_def)
    have "(of_nat (2 ^ (bits ?n - 1)) :: rat) \<le> of_nat ?n" using b(1) by (simp only: of_nat_le_iff)
    also have "\<dots> = of_int \<lfloor>x\<rfloor>" using True by simp
    also have "\<dots> \<le> x" by simp
    finally have lo: "2 ^ (bits ?n - 1) \<le> x" by simp
    from b(2) have "int ?n < 2 ^ bits ?n" by (metis of_nat_less_iff of_nat_numeral of_nat_power)
    then have "\<lfloor>x\<rfloor> < 2 ^ bits ?n" using True by simp
    then have "x < of_int (2 ^ bits ?n)" by (simp only: floor_less_iff)
    then have hi: "x < 2 ^ bits ?n" by simp
    have "ilog2 x + 1 = int (bits ?n)" using i bp by simp
    with lo hi i show ?thesis by (simp only: power_int_of_nat)
  next
    case False
    let ?y = "1 / x"
    let ?N = "\<lceil>?y\<rceil>"
    from False assms have y1: "1 < ?y" by simp
    then have N2: "2 \<le> ?N" by (simp add: le_ceiling_iff)
    let ?m = "nat (?N - 1)"
    from N2 have m: "0 < ?m" by simp
    from bits_bounds [OF m] have b: "2 ^ (bits ?m - 1) \<le> ?m" "?m < 2 ^ bits ?m" by simp_all
    from m have bp: "0 < bits ?m" by (simp add: bits.simps [of ?m])
    have i: "ilog2 x = - int (bits ?m)" using False by (simp add: ilog2_def)
    from N2 have "0 \<le> ?N - 1" by linarith
    then have im: "int ?m = ?N - 1" by (rule nat_0_le)
    from b(2) have "int ?m < 2 ^ bits ?m" by (metis of_nat_less_iff of_nat_numeral of_nat_power)
    then have "?N - 1 < 2 ^ bits ?m" by (simp only: im)
    then have "?N \<le> 2 ^ bits ?m" by linarith
    then have "?y \<le> of_int (2 ^ bits ?m)" by (simp only: ceiling_le_iff)
    then have yhi: "?y \<le> 2 ^ bits ?m" by simp
    from b(1) have "int (2 ^ (bits ?m - 1)) \<le> int ?m" by (simp only: of_nat_le_iff)
    then have "2 ^ (bits ?m - 1) \<le> ?N - 1" by (simp only: im of_nat_power of_nat_numeral)
    then have "2 ^ (bits ?m - 1) < ?N" by linarith
    then have "of_int (2 ^ (bits ?m - 1)) < ?y" by (simp only: less_ceiling_iff)
    then have ylo: "2 ^ (bits ?m - 1) < ?y" by simp
    have p: "(0::rat) < 2 ^ bits ?m" "(0::rat) < 2 ^ (bits ?m - 1)" by simp_all
    from yhi assms p have lo: "1 / 2 ^ bits ?m \<le> x"
      by (simp add: field_simps)
    from ylo assms p have hi: "x < 1 / 2 ^ (bits ?m - 1)"
      by (simp add: field_simps)
    have e1: "(2::rat) powi (- int (bits ?m)) = 1 / 2 ^ bits ?m"
      by (simp add: power_int_minus_divide)
    have "- int (bits ?m) + 1 = - int (bits ?m - 1)" using bp by simp
    then have e2: "(2::rat) powi (- int (bits ?m) + 1) = 1 / 2 ^ (bits ?m - 1)"
      by (simp only: power_int_minus_divide power_int_of_nat)
    from lo hi show ?thesis by (simp only: i e1 e2)
  qed
  then show "2 powi (ilog2 x) \<le> x" and "x < 2 powi (ilog2 x + 1)" by simp_all
qed

lemma ilog2_unique:
  assumes "0 < x" "2 powi k \<le> x" "x < 2 powi (k + 1)"
  shows "ilog2 x = k"
proof (rule ccontr)
  assume ne: "ilog2 x \<noteq> k"
  note b = ilog2_bounds [OF assms(1)]
  show False
  proof (cases "ilog2 x < k")
    case True
    then have "ilog2 x + 1 \<le> k" by simp
    then have "(2::rat) powi (ilog2 x + 1) \<le> 2 powi k" by (intro power_int_increasing) simp_all
    with b(2) assms(2) show False by simp
  next
    case False
    with ne have "k + 1 \<le> ilog2 x" by simp
    then have "(2::rat) powi (k + 1) \<le> 2 powi ilog2 x" by (intro power_int_increasing) simp_all
    with b(1) assms(3) show False by simp
  qed
qed

lemma ilog2_less: "0 < x \<Longrightarrow> x < 2 powi K \<Longrightarrow> ilog2 x < K"
proof (rule ccontr)
  assume a: "0 < x" "x < 2 powi K" "\<not> ilog2 x < K"
  then have "(2::rat) powi K \<le> 2 powi ilog2 x" by (intro power_int_increasing) simp_all
  with ilog2_bounds(1) [OF a(1)] a(2) show False by simp
qed

lemma ilog2_ge: "0 < x \<Longrightarrow> 2 powi K \<le> x \<Longrightarrow> K \<le> ilog2 x"
proof (rule ccontr)
  assume a: "0 < x" "2 powi K \<le> x" "\<not> K \<le> ilog2 x"
  then have "ilog2 x + 1 \<le> K" by simp
  then have "(2::rat) powi (ilog2 x + 1) \<le> 2 powi K" by (intro power_int_increasing) simp_all
  with ilog2_bounds(2) [OF a(1)] a(2) show False by simp
qed


lemma rhe_of_int: "round_half_even (of_int n) = n"
  by (simp add: round_half_even_def)

lemma rhe_bounds:
  "of_int (round_half_even y) - 1 / 2 \<le> y" "y \<le> of_int (round_half_even y) + 1 / 2"
proof -
  define f where "f = \<lfloor>y\<rfloor>"
  define r where "r = y - of_int f"
  have r: "0 \<le> r" "r < 1" unfolding r_def f_def by linarith+
  have y: "y = of_int f + r" by (simp add: r_def)
  have e: "round_half_even y =
      (if r < 1 / 2 then f else if 1 / 2 < r then f + 1 else if even f then f else f + 1)"
    by (simp add: round_half_even_def Let_def f_def r_def)
  show "of_int (round_half_even y) - 1 / 2 \<le> y" "y \<le> of_int (round_half_even y) + 1 / 2"
    using r y unfolding e by (auto split: if_splits)
qed

lemma rhe_floor: "\<lfloor>y\<rfloor> \<le> round_half_even y" "round_half_even y \<le> \<lfloor>y\<rfloor> + 1"
  by (auto simp: round_half_even_def Let_def)

lemma rhe_ge_int:
  assumes "of_int k \<le> y"
  shows "k \<le> round_half_even y"
proof -
  from assms have "k \<le> \<lfloor>y\<rfloor>" by (simp add: le_floor_iff)
  with rhe_floor(1) [of y] show ?thesis by linarith
qed

lemma rhe_le_int: "y \<le> of_int k \<Longrightarrow> round_half_even y \<le> k"
proof (cases "y = of_int k")
  case True
  then show ?thesis by (simp add: rhe_of_int)
next
  case False
  assume "y \<le> of_int k"
  with False have "y < of_int k" by simp
  then have "\<lfloor>y\<rfloor> < k" by (simp add: floor_less_iff)
  with rhe_floor(2) [of y] show ?thesis by simp
qed

lemma rhe_div:
  assumes "0 < b"
  shows "round_half_even (of_int a / of_int b) =
     (if 2 * (a mod b) < b then a div b
      else if b < 2 * (a mod b) then a div b + 1
      else if even (a div b) then a div b else a div b + 1)"
proof -
  have f: "\<lfloor>rat_of_int a / of_int b\<rfloor> = a div b"
    by (rule floor_divide_of_int_eq)
  have "rat_of_int a = of_int (a div b) * of_int b + of_int (a mod b)"
    by (metis div_mult_mod_eq of_int_add of_int_mult)
  then have "rat_of_int a / of_int b = of_int (a div b) + of_int (a mod b) / of_int b"
    using assms by (simp add: field_simps)
  then have r: "rat_of_int a / of_int b - of_int (a div b) = of_int (a mod b) / of_int b"
    by simp
  have lt: "(rat_of_int (a mod b) / of_int b < 1 / 2) = (2 * (a mod b) < b)"
  proof -
    have "(rat_of_int (a mod b) / of_int b < 1 / 2) = (rat_of_int (2 * (a mod b)) < of_int b)"
      using assms by (simp add: field_simps)
    then show ?thesis by (simp only: of_int_less_iff)
  qed
  have gt: "(1 / 2 < rat_of_int (a mod b) / of_int b) = (b < 2 * (a mod b))"
  proof -
    have "(1 / 2 < rat_of_int (a mod b) / of_int b) = (rat_of_int b < of_int (2 * (a mod b)))"
      using assms by (simp add: field_simps)
    then show ?thesis by (simp only: of_int_less_iff)
  qed
  show ?thesis
    by (simp only: round_half_even_def Let_def f r lt gt)
qed

lemma round_double_unfold:
  assumes "x \<noteq> 0" "round_double x = Some r"
  shows "r = of_int (round_half_even (x / 2 powi ulp_exp x)) * 2 powi ulp_exp x"
    and "\<bar>r\<bar> < 2 ^ 1024"
  using assms by (auto simp: round_double_def Let_def split: if_splits)

lemma round_doubleI:
  assumes "x \<noteq> 0" "2 powi k \<le> \<bar>x\<bar>" "\<bar>x\<bar> < 2 powi (k + 1)"
      and "e = max k (- 1022) - 52" "m = round_half_even (x / 2 powi e)"
      and "\<bar>of_int m * 2 powi e\<bar> < (2::rat) ^ 1024"
  shows "round_double x = Some (of_int m * 2 powi e)"
proof -
  from assms(1) have "0 < \<bar>x\<bar>" by simp
  from ilog2_unique [OF this assms(2,3)] assms(4) have "ulp_exp x = e"
    by (simp add: ulp_exp_def)
  with assms(1,5,6) show ?thesis
    by (simp add: round_double_def Let_def)
qed

lemma mantissa_less:
  assumes "x \<noteq> 0"
  shows "\<bar>x / 2 powi ulp_exp x\<bar> < 2 ^ 53"
proof -
  from assms have p: "0 < \<bar>x\<bar>" by simp
  have "ilog2 \<bar>x\<bar> - 52 \<le> ulp_exp x" by (simp add: ulp_exp_def)
  then have "(2::rat) powi (ilog2 \<bar>x\<bar> - 52) \<le> 2 powi ulp_exp x"
    by (intro power_int_increasing) simp_all
  moreover have "(2::rat) powi (ilog2 \<bar>x\<bar> + 1) = 2 powi (ilog2 \<bar>x\<bar> - 52) * 2 ^ 53"
  proof -
    have "ilog2 \<bar>x\<bar> + 1 = (ilog2 \<bar>x\<bar> - 52) + 53" by simp
    then have "(2::rat) powi (ilog2 \<bar>x\<bar> + 1) = 2 powi ((ilog2 \<bar>x\<bar> - 52) + 53)"
      by (simp only:)
    also have "\<dots> = 2 powi (ilog2 \<bar>x\<bar> - 52) * 2 powi 53"
      by (rule power_int_add) simp
    finally show ?thesis by simp
  qed
  ultimately have "(2::rat) powi (ilog2 \<bar>x\<bar> + 1) \<le> 2 powi ulp_exp x * 2 ^ 53"
    by simp
  with ilog2_bounds(2) [OF p] have "\<bar>x\<bar> < 2 powi ulp_exp x * 2 ^ 53" by simp
  moreover have "(0::rat) < 2 powi ulp_exp x" by simp
  ultimately have "\<bar>x\<bar> / 2 powi ulp_exp x < 2 ^ 53"
    by (simp add: field_simps)
  then show ?thesis by simp
qed

lemma mantissa_round_le:
  assumes "x \<noteq> 0"
  shows "\<bar>round_half_even (x / 2 powi ulp_exp x)\<bar> \<le> 2 ^ 53"
proof -
  let ?y = "x / 2 powi ulp_exp x"
  from mantissa_less [OF assms] have "?y \<le> 2 ^ 53" "- (2 ^ 53) \<le> ?y"
    by linarith+
  then have a: "?y \<le> of_int (2 ^ 53)" and b: "of_int (- (2 ^ 53)) \<le> ?y"
    by simp_all
  from rhe_le_int [OF a] rhe_ge_int [OF b] show ?thesis by simp
qed


lemma round_double_exact:
  assumes "\<bar>m\<bar> < 2 ^ 53" "- 1074 \<le> e" "e \<le> 971"
  shows "round_double (of_int m * 2 powi e) = Some (of_int m * 2 powi e)"
proof (cases "m = 0")
  case True
  then show ?thesis by (simp add: round_double_def)
next
  case False
  let ?x = "rat_of_int m * 2 powi e"
  have p2: "(0::rat) < 2 powi e" by simp
  from False have x0: "?x \<noteq> 0" by simp
  then have xp: "0 < \<bar>?x\<bar>" by simp
  have ax: "\<bar>?x\<bar> = of_int \<bar>m\<bar> * 2 powi e" by (simp add: abs_mult)
  from assms(1) have "rat_of_int \<bar>m\<bar> < of_int (2 ^ 53)" by (simp only: of_int_less_iff)
  then have "rat_of_int \<bar>m\<bar> < 2 ^ 53" by simp
  then have "of_int \<bar>m\<bar> * 2 powi e < 2 ^ 53 * (2::rat) powi e"
    using p2 by (simp only: mult_less_cancel_right_pos)
  also have "\<dots> = 2 powi (e + 53)"
    using power_int_add [of "2::rat" e 53] by simp
  finally have lt: "\<bar>?x\<bar> < 2 powi (e + 53)" by (simp only: ax)
  from ilog2_less [OF xp lt] have "ilog2 \<bar>?x\<bar> \<le> e + 52" by simp
  with assms(2) have E: "ulp_exp ?x \<le> e" by (simp add: ulp_exp_def)
  define E where "E = ulp_exp ?x"
  define x where "x = ?x"
  define d where "d = nat (e - E)"
  from E have ed: "e = E + int d" by (simp add: d_def E_def)
  have "(2::rat) powi (E + int d) = 2 powi E * 2 powi int d"
    by (rule power_int_add) simp
  then have pe: "(2::rat) powi e = 2 powi E * 2 ^ d" by (simp add: ed)
  have "x / 2 powi E = of_int m * 2 ^ d"
    by (simp add: x_def pe)
  also have "\<dots> = of_int (m * 2 ^ d)" by simp
  finally have "round_half_even (x / 2 powi E) = m * 2 ^ d"
    by (simp only: rhe_of_int)
  then have r: "of_int (round_half_even (x / 2 powi E)) * 2 powi E = x"
    by (simp add: x_def pe)
  from assms(3) have "e + 53 \<le> 1024" by simp
  then have "(2::rat) powi (e + 53) \<le> 2 powi 1024" by (intro power_int_increasing) simp_all
  with lt have "\<not> 2 ^ 1024 \<le> \<bar>x\<bar>" by (simp add: x_def)
  with x0 r have "round_double x = Some x"
    by (simp add: round_double_def Let_def E_def x_def)
  then show ?thesis by (simp only: x_def)
qed

lemma round_double_of_int:
  assumes "\<bar>n\<bar> < 2 ^ 53"
  shows "round_double (of_int n) = Some (of_int n)"
  using round_double_exact [OF assms, of 0] by simp

lemma round_double_overflow:
  assumes "2 ^ 1024 \<le> \<bar>x\<bar>"
  shows "round_double x = None"
proof -
  from assms have x0: "x \<noteq> 0" by auto
  then have xp: "0 < \<bar>x\<bar>" by simp
  define k where "k = ilog2 \<bar>x\<bar>"
  from assms have "(2::rat) powi 1024 \<le> \<bar>x\<bar>" by simp
  from ilog2_ge [OF xp this] have k: "1024 \<le> k" by (simp add: k_def)
  then have E: "ulp_exp x = k - 52" by (simp add: ulp_exp_def k_def)
  let ?p = "(2::rat) powi (k - 52)"
  have pp: "0 < ?p" by simp
  have kk: "(2::rat) powi k = ?p * 2 ^ 52"
    using power_int_add [of "2::rat" "k - 52" 52] by simp
  from ilog2_bounds(1) [OF xp] have "?p * 2 ^ 52 \<le> \<bar>x\<bar>" by (simp only: kk k_def [symmetric])
  then have "2 ^ 52 \<le> \<bar>x\<bar> / ?p" using pp by (simp add: field_simps)
  then have ay: "2 ^ 52 \<le> \<bar>x / ?p\<bar>" by simp
  have "2 ^ 52 \<le> \<bar>round_half_even (x / ?p)\<bar>"
  proof (cases "0 \<le> x / ?p")
    case True
    with ay have "of_int (2 ^ 52) \<le> x / ?p" by simp
    from rhe_ge_int [OF this] show ?thesis by simp
  next
    case False
    with ay have "x / ?p \<le> of_int (- (2 ^ 52))" by simp
    from rhe_le_int [OF this] show ?thesis by simp
  qed
  then have "rat_of_int (2 ^ 52) \<le> of_int \<bar>round_half_even (x / ?p)\<bar>"
    by (simp only: of_int_le_iff)
  then have "2 ^ 52 \<le> \<bar>rat_of_int (round_half_even (x / ?p))\<bar>" by simp
  then have "2 ^ 52 * ?p \<le> \<bar>rat_of_int (round_half_even (x / ?p))\<bar> * ?p"
    using pp by (simp only: mult_le_cancel_right_pos)
  then have "(2::rat) powi k \<le> \<bar>rat_of_int (round_half_even (x / ?p)) * ?p\<bar>"
    by (simp add: kk abs_mult mult.commute)
  moreover from k have "(2::rat) powi 1024 \<le> 2 powi k" by (intro power_int_increasing) simp_all
  ultimately have "2 ^ 1024 \<le> \<bar>rat_of_int (round_half_even (x / ?p)) * ?p\<bar>" by simp
  with x0 show ?thesis by (simp add: round_double_def Let_def E)
qed

lemma round_double_finite:
  assumes "\<bar>x\<bar> < 2 ^ 1023"
  shows "\<exists>r. round_double x = Some r"
proof (cases "x = 0")
  case True
  then show ?thesis by (simp add: round_double_def)
next
  case False
  then have xp: "0 < \<bar>x\<bar>" by simp
  from assms have "\<bar>x\<bar> < 2 powi 1023" by simp
  from ilog2_less [OF xp this] have E: "ulp_exp x + 53 \<le> 1023" by (simp add: ulp_exp_def)
  let ?p = "(2::rat) powi ulp_exp x"
  let ?m = "round_half_even (x / ?p)"
  from mantissa_round_le [OF False] have "rat_of_int \<bar>?m\<bar> \<le> of_int (2 ^ 53)"
    by (simp only: of_int_le_iff)
  then have "\<bar>rat_of_int ?m\<bar> \<le> 2 ^ 53" by simp
  then have "\<bar>rat_of_int ?m\<bar> * ?p \<le> 2 ^ 53 * ?p"
    by (simp only: mult_le_cancel_right_pos [OF zero_less_power_int [of "2::rat"]]) 
  also have "\<dots> = 2 powi (ulp_exp x + 53)"
    using power_int_add [of "2::rat" "ulp_exp x" 53] by simp
  also from E have "\<dots> \<le> 2 powi 1023" by (intro power_int_increasing) simp_all
  finally have "\<bar>rat_of_int ?m * ?p\<bar> \<le> 2 ^ 1023" by (simp add: abs_mult)
  then have "\<not> 2 ^ 1024 \<le> \<bar>rat_of_int ?m * ?p\<bar>" by simp
  with False show ?thesis by (simp add: round_double_def Let_def)
qed


lemma round_double_zero: "round_double 0 = Some 0"
  by (simp add: round_double_def)

lemma round_double_nonpos:
  assumes "x \<le> 0" "round_double x = Some r"
  shows "r \<le> 0"
proof (cases "x = 0")
  case True
  with assms(2) show ?thesis by (simp add: round_double_def)
next
  case False
  have "x / 2 powi ulp_exp x \<le> of_int 0" using assms(1) by (simp add: divide_le_0_iff)
  from rhe_le_int [OF this] have "rat_of_int (round_half_even (x / 2 powi ulp_exp x)) \<le> 0"
    by simp
  then have "rat_of_int (round_half_even (x / 2 powi ulp_exp x)) * 2 powi ulp_exp x \<le> 0"
    by (simp add: mult_le_0_iff)
  with round_double_unfold(1) [OF False assms(2)] show ?thesis by simp
qed

lemma round_double_ge_int:
  assumes "0 \<le> j" "j \<le> 2 ^ 53" "of_int j \<le> x" "round_double x = Some r"
  shows "of_int j \<le> r"
proof (cases "x = 0")
  case True
  with assms show ?thesis by (simp add: round_double_def)
next
  case False
  define E where "E = ulp_exp x"
  let ?p = "(2::rat) powi E"
  have pp: "0 < ?p" by simp
  from assms(1,3) False have xp: "0 < x" by simp
  then have ax: "\<bar>x\<bar> = x" by simp
  note r = round_double_unfold(1) [OF False assms(4), folded E_def]
  show ?thesis
  proof (cases "E \<le> 0")
    case True
    define d where "d = nat (- E)"
    from True have "E = - int d" by (simp add: d_def)
    then have p: "?p = 1 / 2 ^ d" by (simp add: power_int_minus_divide)
    from assms(3) have "rat_of_int j * 2 ^ d \<le> x * 2 ^ d" by simp
    then have "of_int (j * 2 ^ d) \<le> x / ?p" by (simp add: p)
    from rhe_ge_int [OF this] have "rat_of_int (j * 2 ^ d) \<le> of_int (round_half_even (x / ?p))"
      by (simp only: of_int_le_iff)
    then have "rat_of_int (j * 2 ^ d) * ?p \<le> of_int (round_half_even (x / ?p)) * ?p"
      using pp by (simp only: mult_le_cancel_right_pos)
    then show ?thesis by (simp add: r p)
  next
    case False
    then have E1: "1 \<le> E" by simp
    have "- 1022 - 52 < E" using E1 by simp
    then have k: "E = ilog2 x - 52" by (auto simp: E_def ulp_exp_def ax max_def split: if_splits)
    have "(2::rat) powi ilog2 x = ?p * 2 powi 52"
      using power_int_add [of "2::rat" E 52] by (simp add: k)
    with ilog2_bounds(1) [OF xp] have "?p * 2 ^ 52 \<le> x" by simp
    then have "of_int (2 ^ 52) \<le> x / ?p" using pp by (simp add: field_simps)
    from rhe_ge_int [OF this] have "rat_of_int (2 ^ 52) \<le> of_int (round_half_even (x / ?p))"
      by (simp only: of_int_le_iff)
    then have "rat_of_int (2 ^ 52) * ?p \<le> of_int (round_half_even (x / ?p)) * ?p"
      using pp by (simp only: mult_le_cancel_right_pos)
    then have a: "2 ^ 52 * ?p \<le> r" by (simp add: r)
    from E1 have "(2::rat) powi 1 \<le> ?p" by (intro power_int_increasing) simp_all
    then have "2 ^ 52 * (2::rat) \<le> 2 ^ 52 * ?p" by simp
    with a have "2 ^ 53 \<le> r" by simp
    moreover from assms(2) have "rat_of_int j \<le> of_int (2 ^ 53)" by (simp only: of_int_le_iff)
    ultimately show ?thesis by simp
  qed
qed

lemma round_double_error:
  assumes "x \<noteq> 0" "round_double x = Some r"
  shows "\<bar>r - x\<bar> \<le> 2 powi ulp_exp x / 2"
proof -
  define p where "p = (2::rat) powi ulp_exp x"
  have pp: "0 < p" by (simp add: p_def)
  define m where "m = rat_of_int (round_half_even (x / p))"
  from rhe_bounds [of "x / p"] have "\<bar>m - x / p\<bar> \<le> 1 / 2" unfolding m_def by linarith
  then have "\<bar>m - x / p\<bar> * p \<le> 1 / 2 * p" using pp by (simp only: mult_le_cancel_right_pos)
  moreover have "\<bar>m - x / p\<bar> * p = \<bar>m * p - x\<bar>"
  proof -
    have "\<bar>m - x / p\<bar> * p = \<bar>(m - x / p) * p\<bar>" using pp by (simp add: abs_mult)
    also have "(m - x / p) * p = m * p - x" using pp by (simp add: field_simps)
    finally show ?thesis .
  qed
  ultimately have "\<bar>m * p - x\<bar> \<le> p / 2" by simp
  with round_double_unfold(1) [OF assms] show ?thesis by (simp add: m_def p_def)
qed

lemma ulp_exp_le:
  assumes "x \<noteq> 0" "\<bar>x\<bar> < 2 powi K" "- 1021 \<le> K"
  shows "ulp_exp x \<le> K - 53"
proof -
  from assms(1) have "0 < \<bar>x\<bar>" by simp
  from ilog2_less [OF this assms(2)] assms(3) show ?thesis by (simp add: ulp_exp_def)
qed

lemma py_int_nonpos: "r \<le> 0 \<Longrightarrow> py_int r \<le> 0"
  by (auto simp: py_int_def ceiling_le_iff floor_le_iff) 

lemma png_level_round:
  assumes "round_double (of_int n / 10) = Some r"
  shows "max 0 (min 9 (py_int r)) = max 0 (min 9 (n div 10))"
proof -
  consider "n < 0" | "100 \<le> n" | "0 \<le> n" "n < 100" by linarith
  then show ?thesis
  proof cases
    case 1
    then have "rat_of_int n / 10 \<le> 0" by simp
    from round_double_nonpos [OF this assms] have "py_int r \<le> 0" by (rule py_int_nonpos)
    moreover from 1 have "n div 10 \<le> 0" by simp
    ultimately show ?thesis by simp
  next
    case 2
    then have "rat_of_int 10 \<le> of_int n / 10" by simp
    from round_double_ge_int [OF _ _ this assms] have "10 \<le> r" by simp
    then have "10 \<le> py_int r" by (simp add: py_int_def le_floor_iff)
    moreover from 2 have "10 \<le> n div 10" by simp
    ultimately show ?thesis by simp
  next
    case 3
    define j where "j = n div 10"
    define t where "t = n mod 10"
    have n: "n = 10 * j + t" by (simp add: j_def t_def)
    have t: "0 \<le> t" "t < 10" by (simp_all add: t_def)
    from 3 have j: "0 \<le> j" "j < 10" by (simp_all add: j_def)
    let ?x = "rat_of_int n / 10"
    have x: "?x = of_int j + of_int t / 10" by (simp add: n)
    have lo: "of_int j \<le> ?x" using t by (simp add: x)
    from j have "j \<le> 2 ^ 53" by simp
    from round_double_ge_int [OF j(1) this lo assms] have rj: "of_int j \<le> r" .
    have "r < of_int j + 1"
    proof (cases "n = 0")
      case True
      with assms have "r = 0" by (simp add: round_double_def)
      with True show ?thesis by (simp add: j_def)
    next
      case False
      then have x0: "?x \<noteq> 0" by simp
      from 3 have "\<bar>?x\<bar> < 2 powi 4" by simp
      from ulp_exp_le [OF x0 this] have "ulp_exp ?x \<le> - 49" by simp
      then have "(2::rat) powi ulp_exp ?x \<le> 2 powi (- 49)" by (intro power_int_increasing) simp_all
      with round_double_error [OF x0 assms] have "\<bar>r - ?x\<bar> \<le> 2 powi (- 49) / 2" by simp
      then have "r \<le> ?x + 2 powi (- 49) / 2" by linarith
      moreover have "(2::rat) powi (- 49) / 2 < 1 / 10" by (simp add: power_int_minus_divide)
      moreover have "?x \<le> of_int j + 9 / 10"
      proof -
        from t have "t \<le> 9" by simp
        then have "rat_of_int t \<le> of_int 9" by (simp only: of_int_le_iff)
        then show ?thesis by (simp add: x)
      qed
      ultimately show ?thesis by linarith
    qed
    with rj have "\<lfloor>r\<rfloor> = j" by (simp add: floor_unique)
    moreover from rj j have "0 \<le> r" by simp
    ultimately have "py_int r = n div 10" by (simp add: py_int_def j_def)
    then show ?thesis by simp
  qed
qed

lemma int_to_float_small: "\<bar>n\<bar> < 2 ^ 53 \<Longrightarrow> int_to_float n = Inr (of_int n)"
  by (simp add: int_to_float_def round_double_of_int)

lemma int_to_float_nat: "n < 2 ^ 53 \<Longrightarrow> int_to_float (int n) = Inr (of_nat n)"
proof -
  assume "n < 2 ^ 53"
  then have "int n < 2 ^ 53" by (metis of_nat_less_iff of_nat_numeral of_nat_power)
  then have "\<bar>int n\<bar> < 2 ^ 53" by simp
  from int_to_float_small [OF this] show ?thesis by simp
qed

text \<open>The compression level of an integer quality.\<close>

lemma png_compression_int_cases:
  "png_compression (PInt n) =
     (case round_double (of_int (100 - n) / 10) of
        None \<Rightarrow> Inl OverflowError
      | Some r \<Rightarrow> Inr (max 0 (min 9 ((100 - n) div 10))))"
proof (cases "round_double (of_int (100 - n) / 10)")
  case None
  then show ?thesis
    by (simp add: png_compression_def to_pynum_def py_truediv_def ebind_def)
next
  case (Some r)
  from png_level_round [OF Some] Some show ?thesis
    by (simp add: png_compression_def to_pynum_def py_truediv_def ebind_def)
qed

lemma png_compression_int:
  assumes "\<bar>100 - n\<bar> < 2 ^ 1023"
  shows "png_compression (PInt n) = Inr (max 0 (min 9 ((100 - n) div 10)))"
proof -
  from assms have "rat_of_int \<bar>100 - n\<bar> < of_int (2 ^ 1023)" by (simp only: of_int_less_iff)
  then have "\<bar>rat_of_int (100 - n)\<bar> < 2 ^ 1023" by simp
  then have "\<bar>rat_of_int (100 - n) / 10\<bar> < 2 ^ 1023" by simp
  from round_double_finite [OF this] obtain r where "round_double (of_int (100 - n) / 10) = Some r"
    by blast
  then show ?thesis by (simp add: png_compression_int_cases)
qed

lemma png_compression_default: "png_compression (PInt 95) = Inr 0"
  using png_compression_int [of 95] by simp

text \<open>The default strength 1.5 of the unsharp mask: \<open>1.0 + 1.5\<close> and \<open>-1.5\<close>.\<close>

lemma round_double_small: "round_double (5 / 2) = Some (5 / 2)"
  using round_double_exact [of 5 "- 1"] by (simp add: power_int_minus_divide)

lemma default_strength:
  "py_one_plus (PFloat (3 / 2)) = Inr (PFloat (5 / 2))"
  "py_neg (PFloat (3 / 2)) = Inr (PFloat (- (3 / 2)))"
  by (simp_all add: py_one_plus_def py_neg_def to_pynum_def ebind_def fl_def round_double_small)

text \<open>Comparisons with a finite number are comparisons of the values.\<close>

lemma to_pynum_finite:
  assumes "py_num v = Some T"
  shows "\<exists>n. to_pynum v = Inr n \<and> (\<forall>x. num_less x n = (x < T))"
  using assms by (cases v) (auto simp: to_pynum_def)

section \<open>The output namer ignores \<open>keep_original_name\<close>\<close>

lemma generate_output_filename_eq:
  "generate_output_filename p d pre fmt k =
     path_join d (pre @ fst (splitext (basename p)) @ ''.'' @ fmt)"
  by (simp add: generate_output_filename_def Let_def)

lemma basename_photo: "basename ''/in/photo.JPG'' = ''photo.JPG''"
  by (simp add: basename_def)

lemma splitext_photo: "splitext ''photo.JPG'' = (''photo'', ''.JPG'')"
  by (simp add: splitext_def rfind_def Let_def)

lemma basename_no_sep: "CHR ''/'' \<notin> set (basename p)"
  by (auto simp: basename_def dest: set_takeWhileD)

lemma splitext_stem_subset: "set (fst (splitext q)) \<subseteq> set q"
  by (auto simp: splitext_def Let_def dest: in_set_takeD)

lemma stem_no_sep: "CHR ''/'' \<notin> set (fst (splitext (basename p)))"
  using splitext_stem_subset [of "basename p"] basename_no_sep [of p] by blast

lemma output_name_not_absolute:
  assumes "\<not> (pre \<noteq> [] \<and> hd pre = CHR ''/'')"
  shows "hd (pre @ fst (splitext (basename p)) @ ''.'' @ fmt) \<noteq> CHR ''/''"
proof (cases "pre = []")
  case False
  with assms show ?thesis by simp
next
  case True
  show ?thesis
  proof (cases "fst (splitext (basename p)) = []")
    case True
    with \<open>pre = []\<close> show ?thesis by simp
  next
    case False
    then have "hd (fst (splitext (basename p))) \<in> set (fst (splitext (basename p)))"
      by simp
    with stem_no_sep [of p] have "hd (fst (splitext (basename p))) \<noteq> CHR ''/''"
      by metis
    with False \<open>pre = []\<close> show ?thesis by simp
  qed
qed

text \<open>
  C10. For every input path, output directory, prefix and format,
  \<open>generate_output_filename\<close> returns the same path whether \<open>keep_original_name\<close>
  is true or false: both branches join the output directory with
  prefix + base name without extension + "." + format. For an output directory that is
  not empty and does not end in a slash, and a prefix that does not start with one, that
  is \<open>outputDir/prefix + base + "." + format\<close>.
\<close>

theorem keep_original_name_no_effect:
  "generate_output_filename p d pre fmt True = generate_output_filename p d pre fmt False
   \<and> generate_output_filename p d pre fmt k =
       path_join d (pre @ fst (splitext (basename p)) @ ''.'' @ fmt)
   \<and> (d \<noteq> [] \<and> last d \<noteq> CHR ''/'' \<and> \<not> (pre \<noteq> [] \<and> hd pre = CHR ''/'') \<longrightarrow>
        generate_output_filename p d pre fmt k =
          d @ ''/'' @ pre @ fst (splitext (basename p)) @ ''.'' @ fmt)"
proof (intro conjI impI)
  show "generate_output_filename p d pre fmt True = generate_output_filename p d pre fmt False"
    by (simp add: generate_output_filename_eq)
  show "generate_output_filename p d pre fmt k =
       path_join d (pre @ fst (splitext (basename p)) @ ''.'' @ fmt)"
    by (rule generate_output_filename_eq)
  assume a: "d \<noteq> [] \<and> last d \<noteq> CHR ''/'' \<and> \<not> (pre \<noteq> [] \<and> hd pre = CHR ''/'')"
  then have "\<not> (pre \<noteq> [] \<and> hd pre = CHR ''/'')"
    by simp
  then have "hd (pre @ fst (splitext (basename p)) @ ''.'' @ fmt) \<noteq> CHR ''/''"
    by (rule output_name_not_absolute)
  with a show "generate_output_filename p d pre fmt k =
          d @ ''/'' @ pre @ fst (splitext (basename p)) @ ''.'' @ fmt"
    by (simp add: generate_output_filename_eq path_join_def)
qed

text \<open>The example of the specification, with the flag true and false.\<close>

theorem keep_original_name_no_effect_witness:
  "generate_output_filename ''/in/photo.JPG'' ''/out'' ''processed_'' ''png'' True
     = ''/out/processed_photo.png''
   \<and> generate_output_filename ''/in/photo.JPG'' ''/out'' ''processed_'' ''png'' False
     = ''/out/processed_photo.png''"
  using keep_original_name_no_effect [of "''/in/photo.JPG''" "''/out''" "''processed_''" "''png''" True]
        keep_original_name_no_effect [of "''/in/photo.JPG''" "''/out''" "''processed_''" "''png''" False]
  by (simp add: basename_photo splitext_photo)

section \<open>An unknown mode name: raised by the selector, caught by the stage\<close>



lemma denoise_stage_cases:
  assumes "py_get (denoise_config self) ''mode'' (PStr ''bilateral'') = Inr mode"
      and "py_get_val (denoise_config self) mode (PDict []) = Inr params"
  shows "ImageProcessor_apply_denoise P self img =
           (case apply_denoise P img mode params of Inl e \<Rightarrow> Inr img | Inr d \<Rightarrow> Inr d)"
  using assms by (simp add: ImageProcessor_apply_denoise_def ebind_def try_except_def)

lemma sharpen_stage_cases:
  assumes "py_get (sharpen_config self) ''mode'' (PStr ''unsharp_mask'') = Inr mode"
      and "py_get_val (sharpen_config self) mode (PDict []) = Inr params"
  shows "ImageProcessor_apply_sharpen P self img =
           (case apply_sharpen P img mode params of Inl e \<Rightarrow> Inr img | Inr d \<Rightarrow> Inr d)"
  using assms by (simp add: ImageProcessor_apply_sharpen_def ebind_def try_except_def)








section \<open>A failing stage falls back to its input\<close>

lemma run_stages_after_denoise_failure:
  assumes "resize_stage P self img = Inr img1"
      and "ImageProcessor_apply_denoise P self img1 = Inr img1"
  shows "run_stages P self img = sharpen_stage P self img1"
  using assms by (simp add: run_stages_def ebind_def)

text \<open>
  C2. If the denoise selector raises any error on the image that leaves the resize
  stage, the denoise stage returns that image unchanged and the pipeline continues with
  the sharpen stage on it; if the sharpen selector raises, the sharpen stage returns the
  image it was given (the denoised one). Neither failure aborts the image.
\<close>

theorem stage_failure_isolated:
  "(resize_stage P self img = Inr img1
     \<and> py_get (denoise_config self) ''mode'' (PStr ''bilateral'') = Inr mode
     \<and> py_get_val (denoise_config self) mode (PDict []) = Inr params
     \<and> apply_denoise P img1 mode params = Inl e
    \<longrightarrow> ImageProcessor_apply_denoise P self img1 = Inr img1
        \<and> run_stages P self img = sharpen_stage P self img1)
   \<and> (py_get (sharpen_config self) ''mode'' (PStr ''unsharp_mask'') = Inr smode
     \<and> py_get_val (sharpen_config self) smode (PDict []) = Inr sparams
     \<and> apply_sharpen P img2 smode sparams = Inl e'
    \<longrightarrow> ImageProcessor_apply_sharpen P self img2 = Inr img2)"
proof (rule conjI; rule impI)
  assume a: "resize_stage P self img = Inr img1
     \<and> py_get (denoise_config self) ''mode'' (PStr ''bilateral'') = Inr mode
     \<and> py_get_val (denoise_config self) mode (PDict []) = Inr params
     \<and> apply_denoise P img1 mode params = Inl e"
  then have d: "ImageProcessor_apply_denoise P self img1 = Inr img1"
    by (simp add: denoise_stage_cases [of self mode params])
  with a show "ImageProcessor_apply_denoise P self img1 = Inr img1
        \<and> run_stages P self img = sharpen_stage P self img1"
    by (simp add: run_stages_after_denoise_failure)
next
  assume "py_get (sharpen_config self) ''mode'' (PStr ''unsharp_mask'') = Inr smode
     \<and> py_get_val (sharpen_config self) smode (PDict []) = Inr sparams
     \<and> apply_sharpen P img2 smode sparams = Inl e'"
  then show "ImageProcessor_apply_sharpen P self img2 = Inr img2"
    by (simp add: sharpen_stage_cases [of self smode sparams])
qed

lemma default_lookups:
  "resize_stage failing_primitives default_processor pixel = Inr pixel"
  "py_get (denoise_config default_processor) ''mode'' (PStr ''bilateral'') = Inr (PStr ''bilateral'')"
  "py_get_val (denoise_config default_processor) (PStr ''bilateral'') (PDict []) = Inr bilateral_params"
  "py_get (sharpen_config default_processor) ''mode'' (PStr ''unsharp_mask'') = Inr (PStr ''unsharp_mask'')"
  "py_get_val (sharpen_config default_processor) (PStr ''unsharp_mask'') (PDict []) = Inr unsharp_params"
  by (simp_all add: resize_stage_def default_processor_def ebind_def bilateral_params_def unsharp_params_def)

lemma failing_denoise:
  "apply_denoise failing_primitives pixel (PStr ''bilateral'') bilateral_params = Inl cv2_error"
  by (simp add: apply_denoise_def bilateral_params_def bilateral_denoise_def failing_primitives_def
      identity_primitives_def ebind_def)

lemma failing_sharpen:
  "apply_sharpen failing_primitives pixel (PStr ''unsharp_mask'') unsharp_params = Inl cv2_error"
  by (simp add: apply_sharpen_def unsharp_params_def unsharp_mask_def failing_primitives_def
      identity_primitives_def ebind_def)

lemma sharpen_stage_default:
  "sharpen_stage failing_primitives default_processor pixel =
     ImageProcessor_apply_sharpen failing_primitives default_processor pixel"
  by (simp add: sharpen_stage_def default_processor_def ebind_def)

text \<open>Every filter primitive raises, under the default configuration.\<close>

theorem stage_failure_isolated_witness:
  "apply_denoise failing_primitives pixel (PStr ''bilateral'') bilateral_params = Inl cv2_error
   \<and> apply_sharpen failing_primitives pixel (PStr ''unsharp_mask'') unsharp_params = Inl cv2_error
   \<and> ImageProcessor_apply_denoise failing_primitives default_processor pixel = Inr pixel
   \<and> ImageProcessor_apply_sharpen failing_primitives default_processor pixel = Inr pixel
   \<and> run_stages failing_primitives default_processor pixel = Inr pixel"
  using stage_failure_isolated
          [of failing_primitives default_processor pixel pixel "PStr ''bilateral''"
              bilateral_params cv2_error "PStr ''unsharp_mask''" unsharp_params pixel cv2_error]
        default_lookups failing_denoise failing_sharpen sharpen_stage_default
  by simp

section \<open>\<open>process_image\<close>: what the handler absorbs, and what escapes it\<close>














section \<open>Non-local means: the branch on the rank of the array\<close>

lemma py_get_lookup: "py_get (PDict kvs) k d = Inr (lookup_default kvs k d)"
  by (simp add: lookup_default_def)

lemma apply_denoise_nlmeans:
  "apply_denoise P img (PStr ''nlmeans'') (PDict kvs) =
     nlmeans_denoise P img (lookup_default kvs ''h'' (PInt 10))
       (lookup_default kvs ''template_window_size'' (PInt 7))
       (lookup_default kvs ''search_window_size'' (PInt 21))"
  by (simp add: apply_denoise_def ebind_def lookup_default_def)

text \<open>
  C8, as the code has it. \<open>nlmeans\<close> always branches, on the rank of the array: an
  array of three axes goes to the coloured primitive, any other to the grey one. For the
  images of the specification's data model this is the channel count: a colour image
  \<open>[h, w, 3]\<close> has 3 channels and takes the coloured path, a grey image \<open>[h, w]\<close>
  has 1 channel and takes the grey path, with the parameters (defaults \<open>h = 10\<close>,
  \<open>template_window_size = 7\<close>, \<open>search_window_size = 21\<close>) passed on.
\<close>

theorem nlmeans_dispatch_by_rank:
  "(length (shape img) = 3 \<longrightarrow>
      nlmeans_denoise P img h t s = fastNlMeansDenoisingColored P img h h t s)
   \<and> (length (shape img) \<noteq> 3 \<longrightarrow>
      nlmeans_denoise P img h t s = fastNlMeansDenoising P img h t s)
   \<and> (shape img = [hh, ww, 3] \<longrightarrow>
      channels img = 3
      \<and> apply_denoise P img (PStr ''nlmeans'') (PDict kvs) =
          fastNlMeansDenoisingColored P img (lookup_default kvs ''h'' (PInt 10))
            (lookup_default kvs ''h'' (PInt 10))
            (lookup_default kvs ''template_window_size'' (PInt 7))
            (lookup_default kvs ''search_window_size'' (PInt 21)))
   \<and> (shape img = [hh, ww] \<longrightarrow>
      channels img = 1
      \<and> apply_denoise P img (PStr ''nlmeans'') (PDict kvs) =
          fastNlMeansDenoising P img (lookup_default kvs ''h'' (PInt 10))
            (lookup_default kvs ''template_window_size'' (PInt 7))
            (lookup_default kvs ''search_window_size'' (PInt 21)))"
  by (simp add: apply_denoise_nlmeans nlmeans_denoise_def channels_def)

lemma spy_results:
  "fastNlMeansDenoisingColored spy_primitives i h hc t s = Inr (np_map (\<lambda>x. 1) i)"
  "fastNlMeansDenoising spy_primitives i h t s = Inr (np_map (\<lambda>x. 2) i)"
  by (simp_all add: spy_primitives_def identity_primitives_def)

text \<open>A colour pixel and a grey pixel, with primitives that mark their output.\<close>

theorem nlmeans_dispatch_by_rank_witness:
  "shape pixel = [1, 1, 3] \<and> channels pixel = 3
   \<and> apply_denoise spy_primitives pixel (PStr ''nlmeans'') (PDict [])
       = Inr \<lparr>shape = [1, 1, 3], data = [1, 1, 1]\<rparr>
   \<and> shape gray_pixel = [1, 1] \<and> channels gray_pixel = 1
   \<and> apply_denoise spy_primitives gray_pixel (PStr ''nlmeans'') (PDict [])
       = Inr \<lparr>shape = [1, 1], data = [2]\<rparr>"
  using nlmeans_dispatch_by_rank [of pixel spy_primitives _ _ _ 1 1 "[]"]
        nlmeans_dispatch_by_rank [of gray_pixel spy_primitives _ _ _ 1 1 "[]"]
  by (simp add: pixel_def gray_pixel_def spy_results np_map_def)

text \<open>
  The claim as written (the coloured primitive exactly when the image has 3 channels,
  the grey one otherwise) fails on a 4-channel image, and on a single-channel image
  stored with a channel axis: both have three axes, and the code takes the coloured path.
\<close>

theorem nlmeans_other_channel_counts_take_colored_path:
  "channels bgra_pixel = 4
   \<and> nlmeans_denoise spy_primitives bgra_pixel (PInt 10) (PInt 7) (PInt 21)
       = fastNlMeansDenoisingColored spy_primitives bgra_pixel (PInt 10) (PInt 10) (PInt 7) (PInt 21)
   \<and> nlmeans_denoise spy_primitives bgra_pixel (PInt 10) (PInt 7) (PInt 21)
       \<noteq> fastNlMeansDenoising spy_primitives bgra_pixel (PInt 10) (PInt 7) (PInt 21)
   \<and> channels gray_pixel_3d = 1
   \<and> nlmeans_denoise spy_primitives gray_pixel_3d (PInt 10) (PInt 7) (PInt 21)
       = fastNlMeansDenoisingColored spy_primitives gray_pixel_3d (PInt 10) (PInt 10) (PInt 7)
           (PInt 21)
   \<and> nlmeans_denoise spy_primitives gray_pixel_3d (PInt 10) (PInt 7) (PInt 21)
       \<noteq> fastNlMeansDenoising spy_primitives gray_pixel_3d (PInt 10) (PInt 7) (PInt 21)"
  by (simp add: channels_def bgra_pixel_def gray_pixel_3d_def nlmeans_denoise_def spy_results
      np_map_def)

section \<open>The PNG compression level\<close>

lemma div_ten_floor: "(100 - n) div 10 = \<lfloor>(100 - rat_of_int n) / 10\<rfloor>"
  using floor_divide_of_int_eq [of "100 - n" 10, where ?'a = rat] by simp

lemma round_six_tenths: "round ((100 - 94) / 10 :: rat) = 1"
proof -
  have "\<lfloor>11 / 10 :: rat\<rfloor> = 1"
    by (rule floor_unique) simp_all
  then show ?thesis by (simp add: round_def)
qed

text \<open>
  The float just above 10, \<open>10 + 2^-49\<close> (written \<open>10.000000000000002\<close>): the
  difference \<open>100 - quality\<close> rounds to 90.
\<close>

lemma round_double_near_90: "round_double (100 + - (10 + 1 / 2 ^ 49)) = Some 90"
  using round_doubleI [of "100 + - (10 + 1 / 2 ^ 49)" 6 "- 46" "90 * 2 ^ 46"]
        rhe_div [of 8 "90 * 2 ^ 49 - 1"]
  by (simp add: power_int_minus_divide)

lemma round_double_nine: "round_double 9 = Some 9" "round_double 10 = Some 10"
  using round_double_of_int [of 9] round_double_of_int [of 10] by simp_all

lemma png_compression_above_ten: "png_compression (PFloat (10 + 1 / 2 ^ 49)) = Inr 9"
  by (simp add: png_compression_def to_pynum_def py_truediv_def ebind_def f_sub_def fl_def
      int_to_float_def round_double_near_90 [simplified] round_double_nine py_int_def)

lemma floor_above_ten: "\<lfloor>(100 - (10 + 1 / 2 ^ 49)) / 10 :: rat\<rfloor> = 8"
  by (rule floor_unique) simp_all

lemma png_compression_huge: "png_compression (PInt (10 ^ 400)) = Inl OverflowError"
proof -
  have "(2::rat) ^ 1024 \<le> \<bar>rat_of_int (100 - 10 ^ 400) / 10\<bar>" by simp
  from round_double_overflow [OF this] show ?thesis
    by (simp add: png_compression_int_cases)
qed

text \<open>
  The claim as written (for every quality value, the level is the clamped rounding of
  \<open>(100 - quality) / 10\<close>) fails in three ways. With rounding to the nearest integer:
  at quality 94 the code gives level 0, and \<open>round(0.6) = 1\<close> under every tie-breaking
  rule. With rounding down: at the float quality \<open>10.000000000000002\<close> the code gives
  level 9, because \<open>100 - quality\<close> is rounded to the float 90, and the floor of the
  exact quotient is 8. And at the integer quality \<open>10^400\<close> the code gives no level:
  the division raises \<open>OverflowError\<close>.
\<close>

theorem png_compression_differs_from_formula:
  "png_compression (PInt 94) = Inr 0
   \<and> max 0 (min 9 (round ((100 - 94) / 10 :: rat))) = 1
   \<and> png_compression (PFloat (10 + 1 / 2 ^ 49)) = Inr 9
   \<and> max 0 (min 9 \<lfloor>(100 - (10 + 1 / 2 ^ 49)) / 10 :: rat\<rfloor>) = 8
   \<and> png_compression (PInt (10 ^ 400)) = Inl OverflowError"
  using round_six_tenths png_compression_int [of 94] png_compression_above_ten floor_above_ten
        png_compression_huge
  by simp

lemma lower_png: "map lower_char ''PNG'' = ''png''"
  by code_simp

text \<open>
  C6, as the code has it. For an integer quality, saving as PNG maps the quality to the
  compression level \<open>clamp(0, 9, floor((100 - quality) / 10))\<close>: the quotient is
  rounded to a float and truncated, and for an integer quality that is the floor of the
  exact quotient, unless the quotient is too large for a float (then the division raises
  \<open>OverflowError\<close>, which cannot happen while \<open>|100 - quality| < 2^1023\<close>). For
  a quality from 0 to 100 the level is \<open>min(9, (100 - quality) div 10)\<close>; quality 95
  gives level 0; the level is what \<open>_save_image\<close> passes to the writer.
\<close>

theorem png_compression_floor:
  "png_compression (PInt n) =
     (case round_double (of_int (100 - n) / 10) of
        None \<Rightarrow> Inl OverflowError
      | Some r \<Rightarrow> Inr (max 0 (min 9 \<lfloor>(100 - rat_of_int n) / 10\<rfloor>)))
   \<and> (\<bar>100 - n\<bar> < 2 ^ 1023 \<longrightarrow>
        png_compression (PInt n) = Inr (max 0 (min 9 \<lfloor>(100 - rat_of_int n) / 10\<rfloor>)))
   \<and> (0 \<le> n \<and> n \<le> 100 \<longrightarrow> png_compression (PInt n) = Inr (min 9 ((100 - n) div 10)))
   \<and> png_compression (PInt 95) = Inr 0
   \<and> (output_config self = PDict kvs
        \<and> lookup_default kvs ''format'' (PStr ''png'') = PStr f
        \<and> map lower_char f = ''png''
        \<and> lookup_default kvs ''quality'' (PInt 95) = PInt n
        \<and> \<bar>100 - n\<bar> < 2 ^ 1023
       \<longrightarrow> ImageProcessor_save_image P self img path =
             try_except
               (imwrite P path img
                  [IMWRITE_PNG_COMPRESSION, PInt (max 0 (min 9 ((100 - n) div 10)))])
               (\<lambda>e. Inr False))"
proof (intro conjI impI)
  show "png_compression (PInt n) =
     (case round_double (of_int (100 - n) / 10) of
        None \<Rightarrow> Inl OverflowError
      | Some r \<Rightarrow> Inr (max 0 (min 9 \<lfloor>(100 - rat_of_int n) / 10\<rfloor>)))"
    by (simp only: png_compression_int_cases div_ten_floor)
next
  assume "\<bar>100 - n\<bar> < 2 ^ 1023"
  then show "png_compression (PInt n) = Inr (max 0 (min 9 \<lfloor>(100 - rat_of_int n) / 10\<rfloor>))"
    by (simp only: png_compression_int div_ten_floor)
next
  assume a: "0 \<le> n \<and> n \<le> 100"
  then have "\<bar>100 - n\<bar> < 2 ^ 1023" by simp
  moreover from a have "0 \<le> 100 - n" by simp
  then have "0 \<le> (100 - n) div 10" by (simp add: pos_imp_zdiv_nonneg_iff)
  ultimately show "png_compression (PInt n) = Inr (min 9 ((100 - n) div 10))"
    by (simp add: png_compression_int)
next
  show "png_compression (PInt 95) = Inr 0"
    by (rule png_compression_default)
next
  assume a: "output_config self = PDict kvs
        \<and> lookup_default kvs ''format'' (PStr ''png'') = PStr f
        \<and> map lower_char f = ''png''
        \<and> lookup_default kvs ''quality'' (PInt 95) = PInt n
        \<and> \<bar>100 - n\<bar> < 2 ^ 1023"
  then have "png_compression (PInt n) = Inr (max 0 (min 9 ((100 - n) div 10)))"
    by (simp add: png_compression_int)
  with a show "ImageProcessor_save_image P self img path =
             try_except
               (imwrite P path img
                  [IMWRITE_PNG_COMPRESSION, PInt (max 0 (min 9 ((100 - n) div 10)))])
               (\<lambda>e. Inr False)"
    unfolding lookup_default_def
    by (simp add: ImageProcessor_save_image_def ebind_def)
qed

lemma default_output_lookups:
  "output_config default_processor =
     PDict [(''format'', PStr ''png''), (''quality'', PInt 95), (''prefix'', PStr ''processed_''),
            (''keep_original_name'', PBool True)]"
  "lookup_default [(''format'', PStr ''png''), (''quality'', PInt 95), (''prefix'', PStr ''processed_''),
            (''keep_original_name'', PBool True)] ''format'' (PStr ''png'') = PStr ''png''"
  "lookup_default [(''format'', PStr ''png''), (''quality'', PInt 95), (''prefix'', PStr ''processed_''),
            (''keep_original_name'', PBool True)] ''quality'' (PInt 95) = PInt 95"
  "map lower_char ''png'' = ''png''"
  by (simp_all add: default_processor_def lookup_default_def lower_char_def)

lemma floor_eight: "\<lfloor>8 :: rat\<rfloor> = 8"
  by simp

text \<open>Quality 20, quality 0, and the default quality 95 in \<open>_save_image\<close>.\<close>

theorem png_compression_floor_witness:
  "\<bar>100 - 20\<bar> < (2::int) ^ 1023
   \<and> png_compression (PInt 20) = Inr 8
   \<and> png_compression (PInt 0) = Inr 9
   \<and> ImageProcessor_save_image identity_primitives default_processor pixel ''/out/a.png''
       = try_except
           (imwrite identity_primitives ''/out/a.png'' pixel [IMWRITE_PNG_COMPRESSION, PInt 0])
           (\<lambda>e. Inr False)"
proof -
  note t = png_compression_floor
             [of 95 default_processor
                 "[(''format'', PStr ''png''), (''quality'', PInt 95),
                   (''prefix'', PStr ''processed_''), (''keep_original_name'', PBool True)]"
                 "''png''" identity_primitives pixel "''/out/a.png''"]
  note a = png_compression_floor [of 20, THEN conjunct2, THEN conjunct1]
  note b = png_compression_floor [of 0, THEN conjunct2, THEN conjunct2, THEN conjunct1]
  have s: "\<bar>100 - 20\<bar> < (2::int) ^ 1023" "\<bar>100 - 95\<bar> < (2::int) ^ 1023" by simp_all
  from a s(1) have "png_compression (PInt 20) = Inr 8" by simp
  moreover from b have "png_compression (PInt 0) = Inr 9" by simp
  moreover from t default_output_lookups s(2)
  have "ImageProcessor_save_image identity_primitives default_processor pixel ''/out/a.png''
       = try_except
           (imwrite identity_primitives ''/out/a.png'' pixel [IMWRITE_PNG_COMPRESSION, PInt 0])
           (\<lambda>e. Inr False)"
    by simp
  ultimately show ?thesis using s(1) by (intro conjI)
qed

section \<open>The resize stage\<close>

lemma py_le_num: "py_num v = Some x \<Longrightarrow> py_le n v = Inr (of_nat n \<le> x)"
proof (cases v)
  case (PInt i)
  assume "py_num v = Some x"
  with PInt have x: "x = of_int i" by simp
  have "(rat_of_nat n \<le> of_int i) = (int n \<le> i)"
    by (metis of_int_le_iff of_int_of_nat_eq)
  with PInt x show ?thesis by (simp add: py_le_def to_pynum_def ebind_def)
next
  case (PBool b)
  assume "py_num v = Some x"
  with PBool have x: "x = (if b then 1 else 0)" by simp
  have "(rat_of_nat n \<le> of_int (if b then 1 else 0)) = (int n \<le> (if b then 1 else 0))"
    by (metis of_int_le_iff of_int_of_nat_eq)
  with PBool x show ?thesis by (simp add: py_le_def to_pynum_def ebind_def)
qed (simp_all add: py_le_def to_pynum_def ebind_def)

lemma resize_unfold:
  assumes "processing_config self = PDict kvs" and "shape img = h # w # rest"
      and "py_num (lookup_default kvs ''max_width'' (PInt 1920)) = Some mw"
      and "py_num (lookup_default kvs ''max_height'' (PInt 1080)) = Some mh"
  shows "ImageProcessor_resize_image P self img =
     (if of_nat w \<le> mw \<and> of_nat h \<le> mh then Inr img
      else if py_truthy (lookup_default kvs ''preserve_aspect_ratio'' (PBool True)) then
        ebind (to_pynum (lookup_default kvs ''max_width'' (PInt 1920))) (\<lambda>a.
        ebind (py_truediv a (int w)) (\<lambda>sw.
        ebind (to_pynum (lookup_default kvs ''max_height'' (PInt 1080))) (\<lambda>b.
        ebind (py_truediv b (int h)) (\<lambda>sh.
        ebind (scaled_size w (py_min sw sh)) (\<lambda>new_w.
        ebind (scaled_size h (py_min sw sh)) (\<lambda>new_h.
        resize P img (PInt new_w) (PInt new_h)))))))
      else resize P img (lookup_default kvs ''max_width'' (PInt 1920))
             (lookup_default kvs ''max_height'' (PInt 1080)))"
  using assms py_le_num [OF assms(3), of w] py_le_num [OF assms(4), of h]
  by (simp add: ImageProcessor_resize_image_def py_get_lookup ebind_def Let_def
      del: py_get.simps split: sum.splits)

lemma py_min_finite: "py_min (Finite a) (Finite b) = Finite (min a b)"
  by (simp add: py_min_def min_def)

lemma truediv_ints:
  "0 < n \<Longrightarrow> round_double (of_int a / of_nat n) = Some s
   \<Longrightarrow> py_truediv (NInt a) (int n) = Inr (Finite s)"
  by (simp add: py_truediv_def)

lemma scaled_size_finite:
  "n < 2 ^ 53 \<Longrightarrow> round_double (of_nat n * s) = Some p
   \<Longrightarrow> scaled_size n (Finite s) = Inr (py_int p)"
  by (simp add: scaled_size_def int_to_float_nat ebind_def fl_def)

lemma resize_doubles:
  assumes "processing_config self = PDict kvs" and "shape img = h # w # rest"
      and a: "lookup_default kvs ''max_width'' (PInt 1920) = PInt a"
      and b: "lookup_default kvs ''max_height'' (PInt 1080) = PInt b"
      and big: "\<not> (int w \<le> a \<and> int h \<le> b)"
      and p: "py_truthy (lookup_default kvs ''preserve_aspect_ratio'' (PBool True))"
      and w: "0 < w" "w < 2 ^ 53" and h: "0 < h" "h < 2 ^ 53"
      and sw: "round_double (of_int a / of_nat w) = Some sw"
      and sh: "round_double (of_int b / of_nat h) = Some sh"
      and pw: "round_double (of_nat w * min sw sh) = Some pw"
      and ph: "round_double (of_nat h * min sw sh) = Some ph"
  shows "ImageProcessor_resize_image P self img = resize P img (PInt (py_int pw)) (PInt (py_int ph))"
proof -
  have le: "(rat_of_nat w \<le> of_int a) = (int w \<le> a)" "(rat_of_nat h \<le> of_int b) = (int h \<le> b)"
    by (metis of_int_le_iff of_int_of_nat_eq)+
  note u = resize_unfold [OF assms(1,2), of "of_int a" "of_int b" P]
  show ?thesis
    using big p
    by (auto simp: u a b le to_pynum_def ebind_def truediv_ints [OF w(1) sw]
        truediv_ints [OF h(1) sh] py_min_finite scaled_size_finite [OF w(2) pw]
        scaled_size_finite [OF h(2) ph])
qed

text \<open>
  The doubles of the examples: \<open>1080 / 2000\<close> is the double nearest to 0.54, and its
  products with 3000 and 2000 round to 1620 and 1080; \<open>1080 / 3648\<close> times 5472
  rounds to the double just below 1620.
\<close>

lemma quotient_examples:
  "round_double (1920 / 3000) = Some (5764607523034235 / 9007199254740992)"
  "round_double (1080 / 2000) = Some (607985949695017 / 1125899906842624)"
  "round_double (1920 / 5472) = Some (1580210395568595 / 4503599627370496)"
  "round_double (1080 / 3648) = Some (666651260630501 / 2251799813685248)"
proof -
  show "round_double (1920 / 3000) = Some (5764607523034235 / 9007199254740992)"
    using round_doubleI [of "1920 / 3000" "- 1" "- 53" 5764607523034235]
    by (simp add: power_int_minus_divide rhe_div [of 25 144115188075855872, simplified])
  show "round_double (1080 / 2000) = Some (607985949695017 / 1125899906842624)"
    using round_doubleI [of "1080 / 2000" "- 1" "- 53" 4863887597560136]
    by (simp add: power_int_minus_divide rhe_div [of 25 121597189939003392, simplified])
  show "round_double (1920 / 5472) = Some (1580210395568595 / 4503599627370496)"
    using round_doubleI [of "1920 / 5472" "- 2" "- 54" 6320841582274380]
    by (simp add: power_int_minus_divide rhe_div [of 57 360287970189639680, simplified])
  show "round_double (1080 / 3648) = Some (666651260630501 / 2251799813685248)"
    using round_doubleI [of "1080 / 3648" "- 2" "- 54" 5333210085044008]
    by (simp add: power_int_minus_divide rhe_div [of 19 101330991615836160, simplified])
qed

lemma product_examples:
  "round_double (3000 * (607985949695017 / 1125899906842624)) = Some 1620"
  "round_double (2000 * (607985949695017 / 1125899906842624)) = Some 1080"
  "round_double (5472 * (666651260630501 / 2251799813685248))
     = Some (7124835347988479 / 4398046511104)"
  "round_double (3648 * (666651260630501 / 2251799813685248)) = Some 1080"
proof -
  show "round_double (3000 * (607985949695017 / 1125899906842624)) = Some 1620"
    using round_doubleI [of "3000 * (607985949695017 / 1125899906842624)" 10 "- 42"
                            7124835347988480]
    by (simp add: power_int_minus_divide rhe_div [of 32 227994731135631375, simplified])
  show "round_double (2000 * (607985949695017 / 1125899906842624)) = Some 1080"
    using round_doubleI [of "2000 * (607985949695017 / 1125899906842624)" 10 "- 42"
                            4749890231992320]
    by (simp add: power_int_minus_divide rhe_div [of 16 75998243711877125, simplified])
  show "round_double (5472 * (666651260630501 / 2251799813685248))
     = Some (7124835347988479 / 4398046511104)"
    using round_doubleI [of "5472 * (666651260630501 / 2251799813685248)" 10 "- 42"
                            7124835347988479]
    by (simp add: power_int_minus_divide rhe_div [of 16 113997365567815671, simplified])
  show "round_double (3648 * (666651260630501 / 2251799813685248)) = Some 1080"
    using round_doubleI [of "3648 * (666651260630501 / 2251799813685248)" 10 "- 42"
                            4749890231992320]
    by (simp add: power_int_minus_divide rhe_div [of 8 37999121855938557, simplified])
qed

lemma scale_examples:
  "min (5764607523034235 / 9007199254740992) (607985949695017 / 1125899906842624)
     = (607985949695017 / 1125899906842624 :: rat)"
  "min (1580210395568595 / 4503599627370496) (666651260630501 / 2251799813685248)
     = (666651260630501 / 2251799813685248 :: rat)"
  "\<bar>607985949695017 / 1125899906842624 - 27 / 50\<bar> < (1 / 2 ^ 54 :: rat)"
  by simp_all

lemma py_int_examples:
  "py_int 1620 = 1620" "py_int 1080 = 1080"
  "py_int (7124835347988479 / 4398046511104) = 1619"
proof -
  have "\<lfloor>7124835347988479 / 4398046511104 :: rat\<rfloor> = 1619"
    by (rule floor_unique) simp_all
  then show "py_int (7124835347988479 / 4398046511104) = 1619"
    by (simp add: py_int_def)
qed (simp_all add: py_int_def)

lemma default_processing_lookups:
  "processing_config default_processor =
     PDict [(''resize'', PBool False), (''max_width'', PInt 1920), (''max_height'', PInt 1080),
            (''preserve_aspect_ratio'', PBool True)]"
  "lookup_default [(''resize'', PBool False), (''max_width'', PInt 1920),
      (''max_height'', PInt 1080), (''preserve_aspect_ratio'', PBool True)]
      ''max_width'' (PInt 1920) = PInt 1920"
  "lookup_default [(''resize'', PBool False), (''max_width'', PInt 1920),
      (''max_height'', PInt 1080), (''preserve_aspect_ratio'', PBool True)]
      ''max_height'' (PInt 1080) = PInt 1080"
  "lookup_default [(''resize'', PBool False), (''max_width'', PInt 1920),
      (''max_height'', PInt 1080), (''preserve_aspect_ratio'', PBool True)]
      ''preserve_aspect_ratio'' (PBool True) = PBool True"
  by (simp_all add: default_processor_def lookup_default_def)

lemma resize_example:
  assumes "shape img = [2000, 3000, c]"
  shows "ImageProcessor_resize_image P default_processor img = resize P img (PInt 1620) (PInt 1080)"
  using resize_doubles [OF default_processing_lookups(1) assms default_processing_lookups(2,3),
          of "5764607523034235 / 9007199254740992" "607985949695017 / 1125899906842624"
             1620 1080 P]
        quotient_examples(1,2) product_examples(1,2)
  by (simp add: default_processing_lookups scale_examples py_int_examples)

lemma resize_example_5472:
  assumes "shape img = [3648, 5472, c]"
  shows "ImageProcessor_resize_image P default_processor img = resize P img (PInt 1619) (PInt 1080)"
  using resize_doubles [OF default_processing_lookups(1) assms default_processing_lookups(2,3),
          of "1580210395568595 / 4503599627370496" "666651260630501 / 2251799813685248"
             "7124835347988479 / 4398046511104" 1080 P]
        quotient_examples(3,4) product_examples(3,4)
  by (simp add: default_processing_lookups scale_examples py_int_examples)

text \<open>
  C5. With finite numeric maxima \<open>mw\<close>, \<open>mh\<close>: an image whose width and height
  are both within the maxima is returned unchanged. A larger one, with aspect
  preservation, is resized to \<open>int(w * s)\<close> by \<open>int(h * s)\<close> for the single factor
  \<open>s = min(max_width / w, max_height / h)\<close>, computed on floats: for integer maxima
  each quotient is the double nearest to the exact quotient, each product the double
  nearest to the exact product, and \<open>int\<close> truncates. Without aspect preservation
  the image is resized to the maxima themselves. A 3000 x 2000 image under the default
  1920 x 1080 has the factor 0.54 (the double nearest to it) and is resized to
  1620 x 1080; a 5472 x 3648 image is resized to 1619 x 1080, the product
  \<open>5472 * s\<close> being the double just below 1620.
\<close>

theorem resize_policy:
  "(processing_config self = PDict kvs \<and> shape img = h # w # rest
    \<and> py_num (lookup_default kvs ''max_width'' (PInt 1920)) = Some mw
    \<and> py_num (lookup_default kvs ''max_height'' (PInt 1080)) = Some mh
    \<longrightarrow>
     (of_nat w \<le> mw \<and> of_nat h \<le> mh \<longrightarrow> ImageProcessor_resize_image P self img = Inr img)
     \<and> (\<not> (of_nat w \<le> mw \<and> of_nat h \<le> mh)
          \<and> py_truthy (lookup_default kvs ''preserve_aspect_ratio'' (PBool True))
          \<and> to_pynum (lookup_default kvs ''max_width'' (PInt 1920)) = Inr a
          \<and> py_truediv a (int w) = Inr sw
          \<and> to_pynum (lookup_default kvs ''max_height'' (PInt 1080)) = Inr b
          \<and> py_truediv b (int h) = Inr sh
          \<and> scaled_size w (py_min sw sh) = Inr new_w
          \<and> scaled_size h (py_min sw sh) = Inr new_h
         \<longrightarrow> ImageProcessor_resize_image P self img = resize P img (PInt new_w) (PInt new_h))
     \<and> (\<not> (of_nat w \<le> mw \<and> of_nat h \<le> mh)
          \<and> \<not> py_truthy (lookup_default kvs ''preserve_aspect_ratio'' (PBool True))
         \<longrightarrow> ImageProcessor_resize_image P self img =
               resize P img (lookup_default kvs ''max_width'' (PInt 1920))
                 (lookup_default kvs ''max_height'' (PInt 1080))))
   \<and> (processing_config self = PDict kvs \<and> shape img = h # w # rest
        \<and> lookup_default kvs ''max_width'' (PInt 1920) = PInt max_w
        \<and> lookup_default kvs ''max_height'' (PInt 1080) = PInt max_h
        \<and> \<not> (int w \<le> max_w \<and> int h \<le> max_h)
        \<and> py_truthy (lookup_default kvs ''preserve_aspect_ratio'' (PBool True))
        \<and> 0 < w \<and> w < 2 ^ 53 \<and> 0 < h \<and> h < 2 ^ 53
        \<and> round_double (of_int max_w / of_nat w) = Some qw
        \<and> round_double (of_int max_h / of_nat h) = Some qh
        \<and> round_double (of_nat w * min qw qh) = Some pw
        \<and> round_double (of_nat h * min qw qh) = Some ph
       \<longrightarrow> ImageProcessor_resize_image P self img =
             resize P img (PInt (py_int pw)) (PInt (py_int ph)))
   \<and> (shape img = [2000, 3000, c]
        \<longrightarrow> round_double (1080 / 2000) = Some (607985949695017 / 1125899906842624)
            \<and> \<bar>607985949695017 / 1125899906842624 - 27 / 50\<bar> < (1 / 2 ^ 54 :: rat)
            \<and> ImageProcessor_resize_image P default_processor img =
                  resize P img (PInt 1620) (PInt 1080))
   \<and> (shape img = [3648, 5472, c]
        \<longrightarrow> ImageProcessor_resize_image P default_processor img =
              resize P img (PInt 1619) (PInt 1080))"
proof (intro conjI)
  show "processing_config self = PDict kvs \<and> shape img = h # w # rest
    \<and> py_num (lookup_default kvs ''max_width'' (PInt 1920)) = Some mw
    \<and> py_num (lookup_default kvs ''max_height'' (PInt 1080)) = Some mh
    \<longrightarrow>
     (of_nat w \<le> mw \<and> of_nat h \<le> mh \<longrightarrow> ImageProcessor_resize_image P self img = Inr img)
     \<and> (\<not> (of_nat w \<le> mw \<and> of_nat h \<le> mh)
          \<and> py_truthy (lookup_default kvs ''preserve_aspect_ratio'' (PBool True))
          \<and> to_pynum (lookup_default kvs ''max_width'' (PInt 1920)) = Inr a
          \<and> py_truediv a (int w) = Inr sw
          \<and> to_pynum (lookup_default kvs ''max_height'' (PInt 1080)) = Inr b
          \<and> py_truediv b (int h) = Inr sh
          \<and> scaled_size w (py_min sw sh) = Inr new_w
          \<and> scaled_size h (py_min sw sh) = Inr new_h
         \<longrightarrow> ImageProcessor_resize_image P self img = resize P img (PInt new_w) (PInt new_h))
     \<and> (\<not> (of_nat w \<le> mw \<and> of_nat h \<le> mh)
          \<and> \<not> py_truthy (lookup_default kvs ''preserve_aspect_ratio'' (PBool True))
         \<longrightarrow> ImageProcessor_resize_image P self img =
               resize P img (lookup_default kvs ''max_width'' (PInt 1920))
                 (lookup_default kvs ''max_height'' (PInt 1080)))"
  proof (rule impI)
    assume a: "processing_config self = PDict kvs \<and> shape img = h # w # rest
      \<and> py_num (lookup_default kvs ''max_width'' (PInt 1920)) = Some mw
      \<and> py_num (lookup_default kvs ''max_height'' (PInt 1080)) = Some mh"
    note u = resize_unfold [of self kvs img h w rest mw mh P]
    from a show "(of_nat w \<le> mw \<and> of_nat h \<le> mh \<longrightarrow> ImageProcessor_resize_image P self img = Inr img)
     \<and> (\<not> (of_nat w \<le> mw \<and> of_nat h \<le> mh)
          \<and> py_truthy (lookup_default kvs ''preserve_aspect_ratio'' (PBool True))
          \<and> to_pynum (lookup_default kvs ''max_width'' (PInt 1920)) = Inr a
          \<and> py_truediv a (int w) = Inr sw
          \<and> to_pynum (lookup_default kvs ''max_height'' (PInt 1080)) = Inr b
          \<and> py_truediv b (int h) = Inr sh
          \<and> scaled_size w (py_min sw sh) = Inr new_w
          \<and> scaled_size h (py_min sw sh) = Inr new_h
         \<longrightarrow> ImageProcessor_resize_image P self img = resize P img (PInt new_w) (PInt new_h))
     \<and> (\<not> (of_nat w \<le> mw \<and> of_nat h \<le> mh)
          \<and> \<not> py_truthy (lookup_default kvs ''preserve_aspect_ratio'' (PBool True))
         \<longrightarrow> ImageProcessor_resize_image P self img =
               resize P img (lookup_default kvs ''max_width'' (PInt 1920))
                 (lookup_default kvs ''max_height'' (PInt 1080)))"
      by (auto simp: u ebind_def)
  qed
next
  show "processing_config self = PDict kvs \<and> shape img = h # w # rest
        \<and> lookup_default kvs ''max_width'' (PInt 1920) = PInt max_w
        \<and> lookup_default kvs ''max_height'' (PInt 1080) = PInt max_h
        \<and> \<not> (int w \<le> max_w \<and> int h \<le> max_h)
        \<and> py_truthy (lookup_default kvs ''preserve_aspect_ratio'' (PBool True))
        \<and> 0 < w \<and> w < 2 ^ 53 \<and> 0 < h \<and> h < 2 ^ 53
        \<and> round_double (of_int max_w / of_nat w) = Some qw
        \<and> round_double (of_int max_h / of_nat h) = Some qh
        \<and> round_double (of_nat w * min qw qh) = Some pw
        \<and> round_double (of_nat h * min qw qh) = Some ph
       \<longrightarrow> ImageProcessor_resize_image P self img =
             resize P img (PInt (py_int pw)) (PInt (py_int ph))"
  proof (rule impI)
    assume a: "processing_config self = PDict kvs \<and> shape img = h # w # rest
        \<and> lookup_default kvs ''max_width'' (PInt 1920) = PInt max_w
        \<and> lookup_default kvs ''max_height'' (PInt 1080) = PInt max_h
        \<and> \<not> (int w \<le> max_w \<and> int h \<le> max_h)
        \<and> py_truthy (lookup_default kvs ''preserve_aspect_ratio'' (PBool True))
        \<and> 0 < w \<and> w < 2 ^ 53 \<and> 0 < h \<and> h < 2 ^ 53
        \<and> round_double (of_int max_w / of_nat w) = Some qw
        \<and> round_double (of_int max_h / of_nat h) = Some qh
        \<and> round_double (of_nat w * min qw qh) = Some pw
        \<and> round_double (of_nat h * min qw qh) = Some ph"
    show "ImageProcessor_resize_image P self img =
             resize P img (PInt (py_int pw)) (PInt (py_int ph))"
      by (rule resize_doubles [of self kvs img h w rest max_w max_h qw qh pw ph P])
         (use a in blast)+
  qed
next
  show "shape img = [2000, 3000, c]
        \<longrightarrow> round_double (1080 / 2000) = Some (607985949695017 / 1125899906842624)
            \<and> \<bar>607985949695017 / 1125899906842624 - 27 / 50\<bar> < (1 / 2 ^ 54 :: rat)
            \<and> ImageProcessor_resize_image P default_processor img =
                  resize P img (PInt 1620) (PInt 1080)"
    using quotient_examples(2) scale_examples(3) resize_example [of img c P] by blast
next
  show "shape img = [3648, 5472, c]
        \<longrightarrow> ImageProcessor_resize_image P default_processor img =
              resize P img (PInt 1619) (PInt 1080)"
    using resize_example_5472 [of img c P] by blast
qed

lemma shape_photo: "shape photo = [2000, 3000, 3]"
  by (simp add: photo_def)

lemma shape_pixel: "shape pixel = [1, 1, 3]"
  by (simp add: pixel_def)

lemma resize_resizing:
  "resize resizing_primitives photo (PInt 1620) (PInt 1080) =
     Inr \<lparr>shape = [1080, 1620, 3], data = replicate (1080 * 1620 * 3) 0\<rparr>"
  "resize resizing_primitives photo (PInt 1920) (PInt 1080) =
     Inr \<lparr>shape = [1080, 1920, 3], data = replicate (1080 * 1920 * 3) 0\<rparr>"
  by (simp_all add: resizing_primitives_def shape_photo)

lemma stretching_lookups:
  "processing_config stretching_processor = PDict [(''preserve_aspect_ratio'', PBool False)]"
  "lookup_default [(''preserve_aspect_ratio'', PBool False)] ''max_width'' (PInt 1920) = PInt 1920"
  "lookup_default [(''preserve_aspect_ratio'', PBool False)] ''max_height'' (PInt 1080) = PInt 1080"
  "lookup_default [(''preserve_aspect_ratio'', PBool False)] ''preserve_aspect_ratio'' (PBool True)
     = PBool False"
  by (simp_all add: stretching_processor_def lookup_default_def)

text \<open>
  An image within the maxima, and the 3000 x 2000 image with and without aspect
  preservation.
\<close>

theorem resize_policy_witness:
  "ImageProcessor_resize_image resizing_primitives default_processor pixel = Inr pixel
   \<and> ImageProcessor_resize_image resizing_primitives default_processor photo =
       Inr \<lparr>shape = [1080, 1620, 3], data = replicate (1080 * 1620 * 3) 0\<rparr>
   \<and> ImageProcessor_resize_image resizing_primitives stretching_processor photo =
       Inr \<lparr>shape = [1080, 1920, 3], data = replicate (1080 * 1920 * 3) 0\<rparr>"
proof -
  let ?kvs = "[(''resize'', PBool False), (''max_width'', PInt 1920),
               (''max_height'', PInt 1080), (''preserve_aspect_ratio'', PBool True)]"
  note t1 = resize_policy [of default_processor ?kvs pixel 1 1 "[3]" 1920 1080
                              resizing_primitives, THEN conjunct1, THEN mp, THEN conjunct1,
                           THEN mp]
  have a: "ImageProcessor_resize_image resizing_primitives default_processor pixel = Inr pixel"
    by (rule t1) (simp_all add: default_processing_lookups shape_pixel)
  note t2 = resize_policy [of default_processor ?kvs photo 2000 3000 "[3]" _ _
                              resizing_primitives _ _ _ _ _ _ 1920 1080
                              "5764607523034235 / 9007199254740992"
                              "607985949695017 / 1125899906842624" 1620 1080,
                           THEN conjunct2, THEN conjunct1, THEN mp]
  have "ImageProcessor_resize_image resizing_primitives default_processor photo =
          resize resizing_primitives photo (PInt (py_int 1620)) (PInt (py_int 1080))"
    using quotient_examples(1,2) product_examples(1,2)
    by (intro t2) (simp add: default_processing_lookups shape_photo scale_examples)
  then have b: "ImageProcessor_resize_image resizing_primitives default_processor photo =
       Inr \<lparr>shape = [1080, 1620, 3], data = replicate (1080 * 1620 * 3) 0\<rparr>"
    by (simp only: py_int_examples resize_resizing)
  note t3 = resize_policy [of stretching_processor "[(''preserve_aspect_ratio'', PBool False)]"
                              photo 2000 3000 "[3]" 1920 1080 resizing_primitives,
                           THEN conjunct1, THEN mp, THEN conjunct2, THEN conjunct2, THEN mp]
  have "ImageProcessor_resize_image resizing_primitives stretching_processor photo =
          resize resizing_primitives photo
            (lookup_default [(''preserve_aspect_ratio'', PBool False)] ''max_width'' (PInt 1920))
            (lookup_default [(''preserve_aspect_ratio'', PBool False)] ''max_height'' (PInt 1080))"
    by (rule t3) (simp_all add: stretching_lookups shape_photo)
  then have c: "ImageProcessor_resize_image resizing_primitives stretching_processor photo =
       Inr \<lparr>shape = [1080, 1920, 3], data = replicate (1080 * 1920 * 3) 0\<rparr>"
    by (simp only: stretching_lookups resize_resizing)
  from a b c show ?thesis by (intro conjI)
qed

section \<open>Arrays of equal shape\<close>

lemma bshape_rev_same: "bshape_rev xs xs = Some xs"
  by (induction xs) auto

lemma broadcast_shapes_same: "broadcast_shapes s s = Some s"
  by (simp add: broadcast_shapes_def bshape_rev_same)

lemma concat_chunks: "length d = n * k \<Longrightarrow> concat (chunks n k d) = d"
  by (induction k arbitrary: d) auto

lemma chunks_length: "length d = n * k \<Longrightarrow> c \<in> set (chunks n k d) \<Longrightarrow> length c = n"
proof (induction k arbitrary: d)
  case 0
  then show ?case by simp
next
  case (Suc k)
  from Suc.prems(2) consider "c = take n d" | "c \<in> set (chunks n k (drop n d))"
    by auto
  then show ?case
  proof cases
    case 1
    with Suc.prems(1) show ?thesis by simp
  next
    case 2
    from Suc.prems(1) have "length (drop n d) = n * k" by simp
    from Suc.IH [OF this 2] show ?thesis .
  qed
qed

lemma bcast_same: "length d = prod_list s \<Longrightarrow> bcast s s d = d"
proof (induction s arbitrary: d)
  case Nil
  then show ?case by simp
next
  case (Cons a s)
  then have len: "length d = prod_list s * a" by (simp add: mult.commute)
  have "map (bcast s s) (chunks (prod_list s) a d) = chunks (prod_list s) a d"
    by (rule map_idI) (simp add: Cons.IH chunks_length [OF len])
  then show ?case by (simp add: concat_chunks [OF len])
qed

lemma broadcast_to_same: "wf_array a \<Longrightarrow> broadcast_to (shape a) a = data a"
  by (simp add: broadcast_to_def wf_array_def bcast_same)

lemma np_binop_same:
  assumes "shape b = shape a" "wf_array a" "wf_array b"
  shows "np_binop f a b = Inr \<lparr>shape = shape a, data = map2 f (data a) (data b)\<rparr>"
  using assms broadcast_to_same [of a] broadcast_to_same [of b]
  by (simp add: np_binop_def broadcast_shapes_same)

lemma np_where_same:
  assumes "shape a = shape m" "shape b = shape m" "wf_array m" "wf_array a" "wf_array b"
  shows "np_where m a b =
           Inr \<lparr>shape = shape m,
                data = map2 (\<lambda>c xy. if c then fst xy else snd xy) (data m) (zip (data a) (data b))\<rparr>"
  using assms broadcast_to_same [of a] broadcast_to_same [of b] broadcast_to_same [of m]
  by (simp add: np_where_def broadcast_shapes_same)

section \<open>The threshold of the unsharp mask\<close>

lemma unsharp_mask_result:
  assumes T: "py_num Tv = Some T" "0 < T"
      and S: "py_one_plus Sv = Inr alpha" "py_neg Sv = Inr beta"
      and bl: "GaussianBlur P img (PTuple [PInt 0, PInt 0]) sigma = Inr bl"
      and sh: "addWeighted P img alpha bl beta (PInt 0) = Inr sh"
      and wf: "wf_array img" "wf_array bl" "wf_array sh"
      and shapes: "shape bl = shape img" "shape sh = shape img"
  shows "unsharp_mask P img sigma Sv Tv =
           Inr \<lparr>shape = shape img,
                data = map2 (\<lambda>c xy. if c then fst xy else snd xy)
                         (map (\<lambda>d. u8_to_f32 d < T) (map2 (-) (data img) (data bl)))
                         (zip (data img) (data sh))\<rparr>"
proof -
  from to_pynum_finite [OF T(1)] obtain n where
    n: "to_pynum Tv = Inr n" "\<And>x. num_less x n = (x < T)"
    by blast
  let ?diff = "\<lparr>shape = shape img, data = map2 (-) (data img) (data bl)\<rparr> :: image"
  let ?mask = "np_map (\<lambda>d. u8_to_f32 d < T) (np_abs_u8 ?diff)"
  have d: "np_binop (-) img bl = Inr ?diff"
    using np_binop_same [of bl img "(-)"] wf shapes by simp
  have lens: "length (data bl) = length (data img)" "length (data sh) = length (data img)"
    using wf shapes by (simp_all add: wf_array_def)
  have m: "shape ?mask = shape img" "wf_array ?mask"
          "data ?mask = map (\<lambda>d. u8_to_f32 d < T) (map2 (-) (data img) (data bl))"
    using wf lens by (simp_all add: np_map_def np_abs_u8_def wf_array_def)
  have w: "np_where ?mask img sh =
            Inr \<lparr>shape = shape ?mask,
                data = map2 (\<lambda>c xy. if c then fst xy else snd xy) (data ?mask) (zip (data img) (data sh))\<rparr>"
    by (rule np_where_same) (use m wf shapes in simp_all)
  show ?thesis
    using T S bl sh d w m n by (simp add: unsharp_mask_def ebind_def Let_def)
qed

lemma unsharp_mask_pixel:
  assumes T: "py_num Tv = Some T" "0 < T"
      and S: "py_one_plus Sv = Inr alpha" "py_neg Sv = Inr beta"
      and bl: "GaussianBlur P img (PTuple [PInt 0, PInt 0]) sigma = Inr bl"
      and sh: "addWeighted P img alpha bl beta (PInt 0) = Inr sh"
      and wf: "wf_array img" "wf_array bl" "wf_array sh"
      and shapes: "shape bl = shape img" "shape sh = shape img"
      and i: "i < length (data img)"
  shows "\<exists>out. unsharp_mask P img sigma Sv Tv = Inr out \<and> shape out = shape img
           \<and> length (data out) = length (data img)
           \<and> data out ! i =
               (if of_nat (unat (data img ! i - data bl ! i)) < T then data img ! i else data sh ! i)"
proof -
  have lens: "length (data bl) = length (data img)" "length (data sh) = length (data img)"
    using wf shapes by (simp_all add: wf_array_def)
  show ?thesis
    using unsharp_mask_result [OF T S bl sh wf shapes] lens i
    by (simp add: u8_to_f32_def)
qed

lemma unat_sub_u8:
  "unat (a - b :: 8 word) = (if unat b \<le> unat a then unat a - unat b else 256 - (unat b - unat a))"
proof -
  have "unat a < 256" "unat b < 256"
    using unsigned_less [of a, where ?'a = nat] unsigned_less [of b, where ?'a = nat] by simp_all
  then have "unat a + 256 - unat b = 256 - (unat b - unat a)" if "\<not> unat b \<le> unat a"
    using that by arith
  then show ?thesis
    by (simp add: unat_sub_if_size word_size)
qed

text \<open>
  C3 on the code. With threshold \<open>T > 0\<close>, a pixel that is at least as bright as
  its blurred value and differs from it by less than \<open>T\<close> is left equal to the
  original, as the claim says. A pixel darker than its blurred value is not: the
  difference \<open>image - blurred\<close> is computed in 8 bits and wraps to
  \<open>256 - (blurred - original)\<close>, so for every \<open>T\<close> up to that value the pixel is
  taken from the sharpened image, also when \<open>|original - blurred| < T\<close>.
\<close>

theorem unsharp_mask_threshold_wraps:
  "py_num Tv = Some T \<and> 0 < T \<and> py_one_plus Sv = Inr alpha \<and> py_neg Sv = Inr beta
   \<and> GaussianBlur P img (PTuple [PInt 0, PInt 0]) sigma = Inr bl
   \<and> addWeighted P img alpha bl beta (PInt 0) = Inr sh
   \<and> wf_array img \<and> wf_array bl \<and> wf_array sh
   \<and> shape bl = shape img \<and> shape sh = shape img \<and> i < length (data img)
   \<longrightarrow>
   (\<exists>out. unsharp_mask P img sigma Sv Tv = Inr out
      \<and> (unat (data bl ! i) \<le> unat (data img ! i)
           \<and> of_nat (unat (data img ! i) - unat (data bl ! i)) < T
          \<longrightarrow> data out ! i = data img ! i)
      \<and> (unat (data img ! i) < unat (data bl ! i)
           \<and> T \<le> of_nat (256 - (unat (data bl ! i) - unat (data img ! i)))
          \<longrightarrow> data out ! i = data sh ! i))"
proof (rule impI)
  assume a: "py_num Tv = Some T \<and> 0 < T \<and> py_one_plus Sv = Inr alpha \<and> py_neg Sv = Inr beta
   \<and> GaussianBlur P img (PTuple [PInt 0, PInt 0]) sigma = Inr bl
   \<and> addWeighted P img alpha bl beta (PInt 0) = Inr sh
   \<and> wf_array img \<and> wf_array bl \<and> wf_array sh
   \<and> shape bl = shape img \<and> shape sh = shape img \<and> i < length (data img)"
  then obtain out where o: "unsharp_mask P img sigma Sv Tv = Inr out"
      and px: "data out ! i =
               (if of_nat (unat (data img ! i - data bl ! i)) < T then data img ! i else data sh ! i)"
    using unsharp_mask_pixel [of Tv T Sv alpha beta P img sigma bl sh i] by auto
  have "data out ! i = data img ! i"
    if "unat (data bl ! i) \<le> unat (data img ! i)
        \<and> of_nat (unat (data img ! i) - unat (data bl ! i)) < T"
  proof -
    from that have "unat (data img ! i - data bl ! i) = unat (data img ! i) - unat (data bl ! i)"
      by (simp add: unat_sub_u8)
    with px have "data out ! i =
        (if of_nat (unat (data img ! i) - unat (data bl ! i)) < T then data img ! i
         else data sh ! i)"
      by (simp only:)
    with that [THEN conjunct2] show ?thesis by (simp only: if_True)
  qed
  moreover have "data out ! i = data sh ! i"
    if "unat (data img ! i) < unat (data bl ! i)
        \<and> T \<le> of_nat (256 - (unat (data bl ! i) - unat (data img ! i)))"
  proof -
    from that have "unat (data img ! i - data bl ! i)
                      = 256 - (unat (data bl ! i) - unat (data img ! i))"
      by (simp add: unat_sub_u8)
    with px have "data out ! i =
        (if of_nat (256 - (unat (data bl ! i) - unat (data img ! i))) < T then data img ! i
         else data sh ! i)"
      by (simp only:)
    moreover from that have "\<not> of_nat (256 - (unat (data bl ! i) - unat (data img ! i))) < T"
      by (simp only: not_less)
    ultimately show ?thesis by (simp only: if_False)
  qed
  ultimately show "\<exists>out. unsharp_mask P img sigma Sv Tv = Inr out
      \<and> (unat (data bl ! i) \<le> unat (data img ! i)
           \<and> of_nat (unat (data img ! i) - unat (data bl ! i)) < T
          \<longrightarrow> data out ! i = data img ! i)
      \<and> (unat (data img ! i) < unat (data bl ! i)
           \<and> T \<le> of_nat (256 - (unat (data bl ! i) - unat (data img ! i)))
          \<longrightarrow> data out ! i = data sh ! i)"
    using o by blast
qed

lemma floor_179_2: "\<lfloor>179 / 2 :: rat\<rfloor> = 89"
  by (rule floor_unique) simp_all

lemma cvRound_examples: "cvRound (179 / 2) = 90" "cvRound 113 = 113"
  by (simp_all add: cvRound_def floor_179_2 Let_def)

lemma dark_spot_sharpened:
  "addWeighted_reference dark_spot (1 + 3 / 2) dark_spot_blurred (- (3 / 2)) 0 =
     \<lparr>shape = [3, 3], data = [113, 113, 113, 113, 90, 113, 113, 113, 113]\<rparr>"
  by (simp add: addWeighted_reference_def dark_spot_def dark_spot_blurred_def u8_to_f32_def
      cvRound_examples saturate_u8_def)

lemma dark_spot_facts:
  "py_num (PInt 20) = Some 20" "(0::rat) < 20"
  "py_one_plus (PFloat (3 / 2)) = Inr (PFloat (5 / 2))"
  "py_neg (PFloat (3 / 2)) = Inr (PFloat (- (3 / 2)))"
  "GaussianBlur blurring_primitives dark_spot (PTuple [PInt 0, PInt 0]) (PFloat 1)
     = Inr dark_spot_blurred"
  "addWeighted blurring_primitives dark_spot (PFloat (5 / 2)) dark_spot_blurred
     (PFloat (- (3 / 2))) (PInt 0) = Inr dark_spot_sharp"
  "wf_array dark_spot" "wf_array dark_spot_blurred" "wf_array dark_spot_sharp"
  "shape dark_spot_blurred = shape dark_spot" "shape dark_spot_sharp = shape dark_spot"
  "4 < length (data dark_spot)"
  using dark_spot_sharpened
  by (simp_all add: blurring_primitives_def dark_spot_sharp_def wf_array_def default_strength)
     (simp_all add: dark_spot_def dark_spot_blurred_def)

lemma dark_spot_unsharp:
  "unsharp_mask blurring_primitives dark_spot (PFloat 1) (PFloat (3 / 2)) (PInt 20) =
     Inr \<lparr>shape = [3, 3], data = [110, 110, 110, 110, 90, 110, 110, 110, 110]\<rparr>"
  using unsharp_mask_result [OF dark_spot_facts(1-11)]
  by (simp add: dark_spot_def dark_spot_blurred_def dark_spot_sharp_def u8_to_f32_def)

text \<open>
  The dark spot: the centre is 100, its blurred value 107, the threshold 20. The
  difference is 7, yet the centre of the result is the sharpened value 90.
\<close>

theorem unsharp_mask_threshold_wraps_witness:
  "data dark_spot ! 4 = 100 \<and> data dark_spot_blurred ! 4 = 107 \<and> data dark_spot_sharp ! 4 = 90
   \<and> \<bar>100 - 107\<bar> < (20::int)
   \<and> unsharp_mask blurring_primitives dark_spot (PFloat 1) (PFloat (3 / 2)) (PInt 20) =
       Inr \<lparr>shape = [3, 3], data = [110, 110, 110, 110, 90, 110, 110, 110, 110]\<rparr>"
  using unsharp_mask_threshold_wraps
          [of "PInt 20" 20 "PFloat (3 / 2)" "PFloat (5 / 2)" "PFloat (- (3 / 2))"
              blurring_primitives dark_spot "PFloat 1"
              dark_spot_blurred dark_spot_sharp 4]
        dark_spot_facts dark_spot_unsharp
  by (simp add: dark_spot_def dark_spot_blurred_def dark_spot_sharp_def)

section \<open>Every filter keeps the shape\<close>






















lemma identity_unsharp_custom:
  "apply_sharpen identity_primitives pixel (PStr ''unsharp_mask'') (PDict []) = Inr pixel"
  "apply_sharpen identity_primitives pixel (PStr ''custom'') (PDict []) = Inr pixel"
  by (simp_all add: apply_sharpen_def ebind_def to_pynum_def default_strength unsharp_mask_def
      custom_kernel_sharpen_def identity_primitives_def)









section \<open>The default kernel has unity gain\<close>

lemma reflect101_less: "0 < len \<Longrightarrow> reflect101 p len < len"
proof (cases "len \<le> 1")
  case True
  then show "0 < len \<Longrightarrow> reflect101 p len < len" by (simp add: reflect101_def)
next
  case False
  then have mpos: "0 < 2 * int len - 2" by simp
  have q: "0 \<le> p mod (2 * int len - 2)" "p mod (2 * int len - 2) < 2 * int len - 2"
    using mpos by (rule pos_mod_sign, rule pos_mod_bound)
  from False q show ?thesis
    by (auto simp: reflect101_def Let_def)
qed

lemma nth_concat_replicate:
  "i < n * length xs \<Longrightarrow> concat (replicate n xs) ! i = xs ! (i mod length xs)"
proof (induction n arbitrary: i)
  case 0
  then show ?case by simp
next
  case (Suc n)
  show ?case
  proof (cases "i < length xs")
    case True
    then show ?thesis by (simp add: nth_append)
  next
    case False
    with Suc.prems have "i - length xs < n * length xs" by simp
    from Suc.IH [OF this] False show ?thesis
      by (simp add: nth_append le_mod_geq)
  qed
qed

lemma sample_index:
  fixes y h x w c n :: nat
  assumes "y < h" "x < w" "c < n"
  shows "(y * w + x) * n + c < h * w * n"
proof -
  have "y * w + x < h * w"
  proof -
    have "y * w + x < y * w + w" using assms(2) by simp
    also have "\<dots> = (Suc y) * w" by simp
    also have "\<dots> \<le> h * w" using assms(1) by (intro mult_le_mono1) simp
    finally show ?thesis .
  qed
  then have "Suc (y * w + x) \<le> h * w" by simp
  then have "Suc (y * w + x) * n \<le> h * w * n" by (rule mult_le_mono1)
  moreover have "(y * w + x) * n + c < Suc (y * w + x) * n" using assms(3) by simp
  ultimately show ?thesis by linarith
qed

lemma flat_sample:
  assumes "y < h" "x < w" "c < length colour"
  shows "data (flat_image h w colour) ! ((y * w + x) * length colour + c) = colour ! c"
  using sample_index [OF assms] assms(3)
  by (simp add: flat_image_def nth_concat_replicate)

lemma cvRound_of_int: "cvRound (of_int n) = n"
  by (simp add: cvRound_def)

lemma saturate_u8_uint: "saturate_u8 (uint w) = w"
proof -
  have "uint w < 256" using unsigned_less [of w, where ?'a = int] by simp
  then have "max 0 (min 255 (uint w)) = uint w" by simp
  then show ?thesis by (simp add: saturate_u8_def)
qed

lemma u8_round_trip: "saturate_u8 (cvRound (u8_to_f32 w)) = w"
proof -
  have "u8_to_f32 w = of_int (uint w)"
    by (simp add: u8_to_f32_def)
  then show ?thesis
    by (simp only: cvRound_of_int saturate_u8_uint)
qed

lemma upt_3: "[0..<3] = [0, 1, 2]"
  by (simp add: upt_rec)

lemma default_kernel_sum:
  assumes "\<And>i j. i < 3 \<Longrightarrow> j < 3 \<Longrightarrow> g i j = v"
  shows "sum_list (map (\<lambda>i. sum_list (map (\<lambda>j. data default_kernel ! (i * 3 + j) * g i j)
           [0..<3])) [0..<3]) = (v :: rat)"
  by (simp add: upt_3 default_kernel_def assms)

lemma default_kernel_weights:
  "sum_list (data default_kernel) = 1" "shape default_kernel = [3, 3]"
  by (simp_all add: default_kernel_def)

lemma filter2D_reference_flat:
  "filter2D_reference (flat_image h w colour) default_kernel = flat_image h w colour"
proof -
  let ?C = "length colour"
  let ?img = "flat_image h w colour"
  have sh: "shape ?img ! 0 = h" "shape ?img ! 1 = w" "channels ?img = ?C"
           "shape default_kernel ! 0 = 3" "shape default_kernel ! 1 = 3"
           "shape ?img ! Suc 0 = w" "shape default_kernel ! Suc 0 = 3"
    by (simp_all add: flat_image_def channels_def default_kernel_def)
  have px: "saturate_u8 (cvRound (sum_list (map (\<lambda>i. sum_list (map (\<lambda>j.
                 data default_kernel ! (i * 3 + j) *
                 u8_to_f32 (data ?img !
                   ((reflect101 (int (idx div (?C * w)) + int i - int (3 div 2)) h * w
                     + reflect101 (int ((idx div ?C) mod w) + int j - int (3 div 2)) w) * ?C
                    + idx mod ?C)))
                 [0..<3])) [0..<3])))
            = concat (replicate (h * w) colour) ! idx"
    if idx: "idx < h * w * ?C" for idx
  proof -
    from idx have pos: "0 < h" "0 < w" "0 < ?C"
      by (cases h; cases w; cases "?C"; simp)+
    then have c: "idx mod ?C < ?C" by simp
    have "data ?img ! ((reflect101 a h * w + reflect101 b w) * ?C + idx mod ?C)
            = colour ! (idx mod ?C)" for a b
      by (rule flat_sample [OF reflect101_less [OF pos(1)] reflect101_less [OF pos(2)] c])
    then have "sum_list (map (\<lambda>i. sum_list (map (\<lambda>j.
                 data default_kernel ! (i * 3 + j) *
                 u8_to_f32 (data ?img !
                   ((reflect101 (int (idx div (?C * w)) + int i - int (3 div 2)) h * w
                     + reflect101 (int ((idx div ?C) mod w) + int j - int (3 div 2)) w) * ?C
                    + idx mod ?C)))
                 [0..<3])) [0..<3]) = u8_to_f32 (colour ! (idx mod ?C))"
      by (intro default_kernel_sum) simp
    moreover have "saturate_u8 (cvRound (u8_to_f32 (colour ! (idx mod ?C)))) = colour ! (idx mod ?C)"
      by (rule u8_round_trip)
    moreover from idx have "concat (replicate (h * w) colour) ! idx = colour ! (idx mod ?C)"
      by (simp add: nth_concat_replicate)
    ultimately show ?thesis by simp
  qed
  have "data (filter2D_reference ?img default_kernel) = concat (replicate (h * w) colour)"
  proof (rule nth_equalityI)
    show "length (data (filter2D_reference ?img default_kernel))
            = length (concat (replicate (h * w) colour))"
      by (simp add: filter2D_reference_def sh Let_def length_concat sum_list_replicate)
  next
    fix idx
    assume "idx < length (data (filter2D_reference ?img default_kernel))"
    then have "idx < h * w * ?C"
      by (simp add: filter2D_reference_def sh Let_def)
    then show "data (filter2D_reference ?img default_kernel) ! idx
                 = concat (replicate (h * w) colour) ! idx"
      using px [of idx] by (simp add: filter2D_reference_def sh Let_def)
  qed
  then show ?thesis
    by (simp add: filter2D_reference_def flat_image_def Let_def)
qed

lemma concat_replicate_single: "concat (replicate n [v]) = replicate n v"
  by (induction n) simp_all

lemma filter2D_reference_flat_gray:
  "filter2D_reference (flat_gray h w v) default_kernel = flat_gray h w v"
proof -
  have "data (filter2D_reference (flat_gray h w v) default_kernel)
          = data (filter2D_reference (flat_image h w [v]) default_kernel)"
    by (simp add: filter2D_reference_def flat_gray_def flat_image_def channels_def Let_def
        concat_replicate_single)
  also have "\<dots> = replicate (h * w) v"
    by (simp add: filter2D_reference_flat) (simp add: flat_image_def concat_replicate_single)
  finally show ?thesis
    by (simp add: flat_gray_def) (simp add: filter2D_reference_def Let_def)
qed

lemma apply_sharpen_custom_default:
  assumes "lookup_default kvs ''kernel'' PNone = PNone"
  shows "apply_sharpen P img (PStr ''custom'') (PDict kvs) = custom_kernel_sharpen P img None"
  using assms unfolding lookup_default_def
  by (simp add: apply_sharpen_def ebind_def)

lemma custom_kernel_sharpen_None:
  "custom_kernel_sharpen P img None = filter2D P img (- 1) default_kernel"
  by (simp add: custom_kernel_sharpen_def)

text \<open>
  C7. With no kernel supplied (no \<open>kernel\<close> key, or \<open>None\<close>), the custom sharpen
  mode calls \<open>filter2D\<close> with the fixed kernel \<open>[[0,-1,0],[-1,5,-1],[0,-1,0]]\<close>, whose
  weights sum to 1. Where \<open>filter2D\<close> computes the documented correlation, a flat
  image (colour or grey, of any size and colour) is returned unchanged.
\<close>

theorem custom_default_kernel_unity_gain:
  "custom_kernel_sharpen P img None = filter2D P img (- 1) default_kernel
   \<and> default_kernel = \<lparr>shape = [3, 3], data = [0, - 1, 0, - 1, 5, - 1, 0, - 1, 0]\<rparr>
   \<and> sum_list (data default_kernel) = 1
   \<and> (lookup_default kvs ''kernel'' PNone = PNone \<longrightarrow>
        apply_sharpen P img (PStr ''custom'') (PDict kvs) = filter2D P img (- 1) default_kernel)
   \<and> (filter2D P (flat_image h w colour) (- 1) default_kernel
          = Inr (filter2D_reference (flat_image h w colour) default_kernel) \<longrightarrow>
        custom_kernel_sharpen P (flat_image h w colour) None = Inr (flat_image h w colour))
   \<and> (filter2D P (flat_gray h w v) (- 1) default_kernel
          = Inr (filter2D_reference (flat_gray h w v) default_kernel) \<longrightarrow>
        custom_kernel_sharpen P (flat_gray h w v) None = Inr (flat_gray h w v))"
  by (simp add: custom_kernel_sharpen_None apply_sharpen_custom_default default_kernel_weights
      filter2D_reference_flat filter2D_reference_flat_gray)
     (simp add: default_kernel_def)

lemma reference_filter2D:
  "filter2D reference_primitives i d k = Inr (filter2D_reference i k)"
  by (simp add: reference_primitives_def)

lemma flat_example:
  "flat_image 2 2 [10, 20, 30]
     = \<lparr>shape = [2, 2, 3], data = [10, 20, 30, 10, 20, 30, 10, 20, 30, 10, 20, 30]\<rparr>"
  by (simp add: flat_image_def numeral_eq_Suc)

lemma no_kernel: "lookup_default [] ''kernel'' PNone = PNone"
  by (simp add: lookup_default_def)

text \<open>A 2 x 2 image of colour (10, 20, 30) and a 2 x 2 grey image of value 7.\<close>

theorem custom_default_kernel_unity_gain_witness:
  "lookup_default [] ''kernel'' PNone = PNone
   \<and> filter2D reference_primitives (flat_image 2 2 [10, 20, 30]) (- 1) default_kernel
       = Inr (filter2D_reference (flat_image 2 2 [10, 20, 30]) default_kernel)
   \<and> flat_image 2 2 [10, 20, 30]
       = \<lparr>shape = [2, 2, 3], data = [10, 20, 30, 10, 20, 30, 10, 20, 30, 10, 20, 30]\<rparr>
   \<and> apply_sharpen reference_primitives (flat_image 2 2 [10, 20, 30]) (PStr ''custom'') (PDict [])
       = Inr (flat_image 2 2 [10, 20, 30])
   \<and> custom_kernel_sharpen reference_primitives (flat_gray 2 2 7) None = Inr (flat_gray 2 2 7)"
proof -
  note t = custom_default_kernel_unity_gain
             [of reference_primitives "flat_image 2 2 [10, 20, 30]" "[]" 2 2 "[10, 20, 30]" 7]
  note t1 = t [THEN conjunct1]
  note t4 = t [THEN conjunct2, THEN conjunct2, THEN conjunct2, THEN conjunct1]
  note t5 = t [THEN conjunct2, THEN conjunct2, THEN conjunct2, THEN conjunct2, THEN conjunct1]
  note t6 = t [THEN conjunct2, THEN conjunct2, THEN conjunct2, THEN conjunct2, THEN conjunct2]
  note a = t5 [THEN mp, OF reference_filter2D]
  note b = t6 [THEN mp, OF reference_filter2D]
  note c = t4 [THEN mp, OF no_kernel]
  note d = trans [OF t1 [symmetric] a]
  note e = trans [OF c d]
  from no_kernel reference_filter2D flat_example e b show ?thesis
    by (intro conjI)
qed

end
